theory Spec2Isabelle
  imports Main "HOL-Library.Sublist"
begin

section \<open>Strings\<close>

text \<open>
  A JavaScript string is modelled as a \<^typ>\<open>string\<close>: each \<^typ>\<open>char\<close> stands for the
  code unit with the same value (0 to 255), so the strings of the model are the
  JavaScript strings over that range. \<open>isWhitespace\<close> is the class \<open>\s\<close> of a
  regular expression (which is also what \<open>String.prototype.trim\<close> strips), cut down
  to that range: TAB, LF, VT, FF, CR, SPACE and NBSP.
\<close>

definition isWhitespace :: "char \<Rightarrow> bool" where
  "isWhitespace c \<longleftrightarrow>
     c \<in> set [CHR 0x09, CHR 0x0A, CHR 0x0B, CHR 0x0C, CHR 0x0D, CHR 0x20, CHR 0xA0]"

text \<open>\<open>s.replace(/\s+$/u, "")\<close>: the longest run of whitespace at the end is removed.\<close>

definition trimEnd :: "string \<Rightarrow> string" where
  "trimEnd s = rev (dropWhile isWhitespace (rev s))"

text \<open>\<open>s.trim()\<close>: whitespace is removed at both ends.\<close>

definition trim :: "string \<Rightarrow> string" where
  "trim s = trimEnd (dropWhile isWhitespace s)"

text \<open>\<open>Array.prototype.join(sep)\<close>.\<close>

fun join :: "string \<Rightarrow> string list \<Rightarrow> string" where
  "join sep [] = []"
| "join sep [x] = x"
| "join sep (x # y # ys) = x @ sep @ join sep (y # ys)"

text \<open>\<open>" ".repeat(w)\<close> for an integer \<open>w\<close> (only called with \<open>w > 0\<close>).\<close>

definition repeatSpace :: "int \<Rightarrow> string" where
  "repeatSpace w = replicate (nat w) (CHR '' '')"

text \<open>The decimal rendering of an integer, as a template literal prints it.\<close>

definition digitChar :: "nat \<Rightarrow> char" where
  "digitChar d = char_of (48 + d)"

function showNat :: "nat \<Rightarrow> string" where
  "showNat n = (if n < 10 then [digitChar n] else showNat (n div 10) @ [digitChar (n mod 10)])"
  by pat_completeness auto
termination
  by (relation "measure id") auto

declare showNat.simps [simp del]

definition showInt :: "int \<Rightarrow> string" where
  "showInt i = (if i < 0 then CHR ''-'' # showNat (nat (- i)) else showNat (nat i))"

text \<open>The number of bytes of the UTF-8 encoding (\<open>Buffer.byteLength\<close>): a code unit
  below 128 is one byte, one from 128 to 255 is two.\<close>

definition charBytes :: "char \<Rightarrow> nat" where
  "charBytes c = (if (of_char c :: nat) < 128 then 1 else 2)"

definition byteLength :: "string \<Rightarrow> nat" where
  "byteLength s = sum_list (map charBytes s)"

section \<open>The terminal buffer and the capture of its text\<close>

text \<open>
  The terminal emulator (\<open>@xterm/headless\<close>) is a library. Of its active buffer the
  capture code reads \<open>buf.baseY\<close>, \<open>term.rows\<close> and \<open>buf.getLine(y)\<close>, and of a line only
  \<open>line.translateToString(true)\<close>. The model keeps exactly that: \<open>bufLines\<close> holds the
  translated text of each line, and \<open>getLine\<close> is undefined (\<open>None\<close>) past the end.
\<close>

record buffer =
  baseY :: nat
  rows :: nat
  bufLines :: "string list"

definition getLine :: "buffer \<Rightarrow> nat \<Rightarrow> string option" where
  "getLine b y = (if y < length (bufLines b) then Some (bufLines b ! y) else None)"

text \<open>\<open>line ? line.translateToString(true).replace(/\s+$/u, "") : ""\<close>\<close>

definition lineText :: "buffer \<Rightarrow> nat \<Rightarrow> string" where
  "lineText b y = (case getLine b y of Some t \<Rightarrow> trimEnd t | None \<Rightarrow> [])"

definition isBlankLine :: "string \<Rightarrow> bool" where
  "isBlankLine l \<longleftrightarrow> length (trim l) = 0"

text \<open>\<open>while (lines.length > 0 && lines[0]?.trim().length === 0) lines.shift();\<close>\<close>

fun shiftBlank :: "string list \<Rightarrow> string list" where
  "shiftBlank [] = []"
| "shiftBlank (l # ls) = (if isBlankLine l then shiftBlank ls else l # ls)"

text \<open>\<open>while (lines.length > 0 && lines[lines.length - 1]?.trim().length === 0) lines.pop();\<close>\<close>

function popBlank :: "string list \<Rightarrow> string list" where
  "popBlank ls = (if ls \<noteq> [] \<and> isBlankLine (last ls) then popBlank (butlast ls) else ls)"
  by pat_completeness auto
termination
  by (relation "measure length") auto

declare popBlank.simps [simp del]

record scrollbackResult =
  sb_text :: string
  sb_truncated :: bool

definition getScrollback :: "buffer \<Rightarrow> int \<Rightarrow> scrollbackResult" where
  "getScrollback b maxLines =
     (let totalLines = baseY b + rows b;
          truncated = (int totalLines > maxLines);
          startY = nat (max 0 (int totalLines - maxLines));
          lines = map (lineText b) [startY ..< totalLines]
      in \<lparr> sb_text = join ''\<newline>'' (popBlank (shiftBlank lines)), sb_truncated = truncated \<rparr>)"

text \<open>
  \<open>#getPlainLines\<close>. Its \<open>try\<close> block guards the calls into the emulator; the buffer
  of the model never throws, so the \<open>catch\<close> branch (which returns the empty array)
  is not taken. \<open>out.slice(-maxLines)\<close> keeps the last \<open>maxLines\<close> entries.
\<close>

definition getPlainLines :: "buffer \<Rightarrow> int \<Rightarrow> string list" where
  "getPlainLines b maxLines =
     (if maxLines \<le> 0 then []
      else
        let lastAbsY = nat (max 0 (int (baseY b) + int (rows b) - 1));
            startAbsY = nat (max 0 (int lastAbsY - maxLines + 1));
            out = popBlank (shiftBlank (map (lineText b) [startAbsY ..< Suc lastAbsY]))
        in drop (length out - nat maxLines) out)"

definition getSnapshot :: "buffer \<Rightarrow> int \<Rightarrow> string" where
  "getSnapshot b maxLines = join ''\<newline>'' (getPlainLines b maxLines)"

definition SCROLLBACK_MAX_LINES :: int where "SCROLLBACK_MAX_LINES = 2000"
definition SCREEN_SNAPSHOT_MAX_LINES :: int where "SCREEN_SNAPSHOT_MAX_LINES = 200"
definition SCREEN_SNAPSHOT_MAX_BYTES :: nat where "SCREEN_SNAPSHOT_MAX_BYTES = 40 * 1024"

text \<open>
  What "leading and trailing blank lines are stripped" means: \<open>ls\<close> is what is left of
  \<open>raw\<close> when a run of blank lines is removed at each end, and no more can be removed.
\<close>

definition blankStripped :: "string list \<Rightarrow> string list \<Rightarrow> bool" where
  "blankStripped raw ls \<longleftrightarrow>
     (\<exists>pre post. raw = pre @ ls @ post \<and> list_all isBlankLine pre \<and> list_all isBlankLine post
        \<and> (ls = [] \<or> (\<not> isBlankLine (hd ls) \<and> \<not> isBlankLine (last ls))))"

text \<open>The text of line \<open>y\<close> as the emulator gives it (the empty string for a missing line).\<close>

definition translated :: "buffer \<Rightarrow> nat \<Rightarrow> string" where
  "translated b y = (case getLine b y of Some t \<Rightarrow> t | None \<Rightarrow> [])"

text \<open>The rows \<open>getScrollback\<close> and \<open>#getPlainLines\<close> read: the last \<open>n\<close> rows that
  end at row \<open>baseY + rows - 1\<close>.\<close>

definition scrollbackWindow :: "buffer \<Rightarrow> int \<Rightarrow> nat list" where
  "scrollbackWindow b n = [nat (max 0 (int (baseY b + rows b) - n)) ..< baseY b + rows b]"

definition snapshotWindow :: "buffer \<Rightarrow> int \<Rightarrow> nat list" where
  "snapshotWindow b m =
     [nat (max 0 (int (nat (max 0 (int (baseY b) + int (rows b) - 1))) - m + 1))
        ..< Suc (nat (max 0 (int (baseY b) + int (rows b) - 1)))]"

text \<open>The buffer of the example: five rows, only the third with text.\<close>

definition helloBuffer :: buffer where
  "helloBuffer = \<lparr> baseY = 0, rows = 5, bufLines = [[], [], ''hello'', [], []] \<rparr>"

definition sampleBuffer :: buffer where
  "sampleBuffer = \<lparr> baseY = 3, rows = 2, bufLines = ['' '', ''ab  '', [], ''c'', []] \<rparr>"

section \<open>The ANSI renderer\<close>

text \<open>
  A cell of the emulator's buffer, with the accessors the renderer calls. The source
  guards every call by \<open>typeof cell.f === "function"\<close>; the cells of the emulator
  have all of these methods, so the guards hold and the model calls the accessor.
\<close>

record cell =
  getWidth :: int
  getChars :: string
  isInvisible :: bool
  isAttributeDefault :: bool
  getFgColorMode :: int
  getBgColorMode :: int
  getFgColor :: int
  getBgColor :: int
  isBold :: bool
  isDim :: bool
  isItalic :: bool
  isUnderline :: bool
  isBlink :: bool
  isInverse :: bool
  isStrikethrough :: bool
  isFgRGB :: bool
  isFgPalette :: bool
  isBgRGB :: bool
  isBgPalette :: bool

text \<open>
  \<open>line?.getCell ? line.getCell(x, nullCell) : null\<close>: a row is the list of its cells,
  \<open>None\<close> is the undefined row, and a column past the end of the row has no cell.
  (\<open>nullCell\<close> is only the object the emulator fills in; it carries no information.)
\<close>

definition getCell :: "cell list option \<Rightarrow> nat \<Rightarrow> cell option" where
  "getCell line x =
     (case line of None \<Rightarrow> None
      | Some cs \<Rightarrow> if x < length cs then Some (cs ! x) else None)"

definition ESC :: char where
  "ESC = CHR 0x1B"

text \<open>The reset sequence \<open>"\x1b[0m"\<close>.\<close>

definition RESET :: string where
  "RESET = ESC # ''[0m''"

definition flag :: "bool \<Rightarrow> string" where
  "flag b = (if b then ''1'' else ''0'')"

text \<open>\<open>cellStyleKey\<close> and \<open>cellSgr\<close>, for a cell that is not null (they are only
  called with one).\<close>

definition cellStyleKey :: "cell \<Rightarrow> string" where
  "cellStyleKey c =
     (if isAttributeDefault c then ''d''
      else showInt (getFgColorMode c) @ '':'' @ showInt (getFgColor c) @ '':''
         @ showInt (getBgColorMode c) @ '':'' @ showInt (getBgColor c) @ '':''
         @ join [] [flag (isBold c), flag (isDim c), flag (isItalic c),
                    flag (isUnderline c), flag (isInverse c), flag (isStrikethrough c)])"

text \<open>
  \<open>(c >> 16) & 0xff\<close> and its siblings take bits of the 32-bit value of \<open>c\<close>; bits 0
  to 23 of that value are bits 0 to 23 of the integer itself.
\<close>

definition rgb :: "int \<Rightarrow> string" where
  "rgb c = showInt (take_bit 8 (drop_bit 16 c)) @ '';''
         @ showInt (take_bit 8 (drop_bit 8 c)) @ '';''
         @ showInt (take_bit 8 c)"

definition cellSgr :: "cell \<Rightarrow> string" where
  "cellSgr c =
     (if isAttributeDefault c then RESET
      else
        let codes = [''0'']
              @ (if isBold c then [''1''] else [])
              @ (if isDim c then [''2''] else [])
              @ (if isItalic c then [''3''] else [])
              @ (if isUnderline c then [''4''] else [])
              @ (if isBlink c then [''5''] else [])
              @ (if isInverse c then [''7''] else [])
              @ (if isStrikethrough c then [''9''] else [])
              @ (if isFgRGB c then [''38;2;'' @ rgb (getFgColor c)]
                 else if isFgPalette c then [''38;5;'' @ showInt (getFgColor c)] else [])
              @ (if isBgRGB c then [''48;2;'' @ rgb (getBgColor c)]
                 else if isBgPalette c then [''48;5;'' @ showInt (getBgColor c)] else [])
        in ESC # ''['' @ join '';'' codes @ ''m'')"

text \<open>The characters written for a cell of width \<open>w > 0\<close> (lines 153 to 155 of the
  source): the cell's own, spaces when it has none or is invisible.\<close>

definition cellText :: "cell \<Rightarrow> string" where
  "cellText c =
     (let w = getWidth c;
          chars = getChars c;
          chars = (if chars = [] then (if w > 1 then repeatSpace w else '' '') else chars)
      in if isInvisible c then repeatSpace w else chars)"

text \<open>The padding written for a missing cell and for a cell that does not fit: a reset
  if a style is on, then one space.\<close>

definition pad :: "string \<Rightarrow> string \<Rightarrow> string" where
  "pad out prevKey = (if prevKey \<noteq> ''d'' then out @ RESET else out) @ '' ''"

text \<open>The loop of \<open>renderBufferLineAnsi\<close>, from column \<open>x\<close> with the output \<open>out\<close> and
  the style key \<open>prevKey\<close> of the last cell written.\<close>

function renderLoop :: "cell list option \<Rightarrow> nat \<Rightarrow> nat \<Rightarrow> string \<Rightarrow> string \<Rightarrow> string" where
  "renderLoop line width x out prevKey =
     (if x < width then
        (case getCell line x of
           None \<Rightarrow> renderLoop line width (x + 1) (pad out prevKey) ''d''
         | Some c \<Rightarrow>
             if getWidth c \<le> 0 then renderLoop line width (x + 1) out prevKey
             else if int x + getWidth c > int width
               then renderLoop line width (x + 1) (pad out prevKey) ''d''
             else renderLoop line width (x + nat (getWidth c))
                    ((if cellStyleKey c \<noteq> prevKey then out @ cellSgr c else out) @ cellText c)
                    (cellStyleKey c))
      else out)"
  by pat_completeness auto
termination
  by (relation "measure (\<lambda>(line, width, x, out, prevKey). width - x)") auto

declare renderLoop.simps [simp del]

definition renderBufferLineAnsi :: "cell list option \<Rightarrow> nat \<Rightarrow> string" where
  "renderBufferLineAnsi line width = renderLoop line width 0 RESET ''d'' @ RESET"

text \<open>
  The emulator lays a wide character out as a cell of width 2 followed by a trailer
  cell that the renderer steps over. \<open>wellLaid\<close> holds of a row made of cells of width 1
  and of such pairs; \<open>lead\<close> are its cells without the trailers.
\<close>

fun wellLaid :: "cell list \<Rightarrow> bool" where
  "wellLaid [] = True"
| "wellLaid [c] = (getWidth c = 1)"
| "wellLaid (c # z # cs) =
     (if getWidth c = 2 then wellLaid cs else getWidth c = 1 \<and> wellLaid (z # cs))"

fun lead :: "cell list \<Rightarrow> cell list" where
  "lead [] = []"
| "lead [c] = [c]"
| "lead (c # z # cs) = (if getWidth c = 2 then c # lead cs else c # lead (z # cs))"

text \<open>Cells for the examples.\<close>

definition defaultCell :: cell where
  "defaultCell = \<lparr> getWidth = 1, getChars = ''a'', isInvisible = False, isAttributeDefault = True,
     getFgColorMode = 0, getBgColorMode = 0, getFgColor = 0, getBgColor = 0,
     isBold = False, isDim = False, isItalic = False, isUnderline = False, isBlink = False,
     isInverse = False, isStrikethrough = False,
     isFgRGB = False, isFgPalette = False, isBgRGB = False, isBgPalette = False \<rparr>"

definition boldCell :: "string \<Rightarrow> cell" where
  "boldCell s = defaultCell \<lparr> getChars := s, isAttributeDefault := False, isBold := True \<rparr>"

definition zeroCell :: cell where
  "zeroCell = defaultCell \<lparr> getWidth := 0, getChars := [] \<rparr>"

definition wideCell :: "string \<Rightarrow> cell" where
  "wideCell s = (boldCell s) \<lparr> getWidth := 2 \<rparr>"

section \<open>Tail truncation\<close>

text \<open>
  Modelled from the spec: the two helpers of \<open>truncateTail\<close> below. They work on the
  reversed text: \<open>takeBytes n\<close> keeps the longest prefix of at most \<open>n\<close> bytes,
  \<open>takeLines n\<close> the longest prefix of at most \<open>n\<close> lines.
\<close>

fun takeBytes :: "nat \<Rightarrow> string \<Rightarrow> string" where
  "takeBytes n [] = []"
| "takeBytes n (c # cs) = (if charBytes c \<le> n then c # takeBytes (n - charBytes c) cs else [])"

fun takeLines :: "nat \<Rightarrow> string \<Rightarrow> string" where
  "takeLines 0 cs = []"
| "takeLines (Suc n) [] = []"
| "takeLines (Suc n) (c # cs) =
     (if c = CHR ''\<newline>'' then (if n = 0 then [] else c # takeLines n cs)
      else c # takeLines (Suc n) cs)"

text \<open>
  Modelled from the spec: \<open>truncateTail\<close> of \<open>./truncate\<close>, which is not among the
  sources. The spec says of it that the text is tail-truncated to a byte budget, and the
  calls pass a line bound as well. The model keeps the longest tail of the content that
  has at most \<open>maxLines\<close> lines (when a bound is given) and then the longest tail of
  that with at most \<open>maxBytes\<close> bytes. The result stands for the \<open>content\<close> field
  of what the function returns.
\<close>

definition truncateTail :: "string \<Rightarrow> nat option \<Rightarrow> nat \<Rightarrow> string" where
  "truncateTail content maxLines maxBytes =
     rev (takeBytes maxBytes
       (case maxLines of None \<Rightarrow> rev content | Some n \<Rightarrow> takeLines n (rev content)))"

section \<open>The session\<close>

text \<open>
  \<open>RunInteractiveTermTool.execute\<close> hands the host a factory; the factory builds the
  overlay component, spawns the PTY and registers callbacks, and the promise of
  \<open>execute\<close> is settled when a callback calls \<open>done\<close>. The model is a state machine:
  the state holds the private fields of the component, the variables the callbacks close
  over, the registrations the callbacks depend on, and a log of the calls made to the
  outside (\<open>done\<close>, \<open>dispose\<close>, \<open>pty.write\<close>, \<open>pty.kill\<close>). Each callback is a function
  on the state, and an event of the environment runs the callback registered for it.
  The runtime is single threaded, so callbacks run one after the other.
\<close>

datatype overlayState = Running | Complete | Timed_out | Killed

text \<open>\<open>InteractiveTermExecutionResult\<close>\<close>

record executionResult =
  exitCode :: "int option"
  scrollback :: string
  screenSnapshot :: string
  timedOut :: bool
  dismissedByUser :: bool
  scrollbackTruncated :: bool
  abortedBySignal :: bool

text \<open>
  The callback that \<open>pty.onExit\<close> passes to \<open>component.flush\<close> closes over the two
  constants \<open>exitCode\<close> and \<open>abortedBySignal\<close> of the handler; \<open>timedOut\<close>,
  \<open>dismissedByUser\<close> and \<open>finished\<close> are variables of \<open>execute\<close>, read when the
  callback runs.
\<close>

record flushClosure =
  cl_exitCode :: "int option"
  cl_abortedBySignal :: bool

text \<open>
  The emulator's \<open>write(data, callback)\<close> is asynchronous (the comment on \<open>flush\<close> in the
  source): it puts the data in a queue, parses the queue later and in order, and calls
  the callback of a write once that write and all before it are parsed.
\<close>

datatype writeItem = Write string "flushClosure option"

fun writeData :: "writeItem \<Rightarrow> string" where
  "writeData (Write d cb) = d"

fun writeCallback :: "writeItem \<Rightarrow> flushClosure option" where
  "writeCallback (Write d cb) = cb"

text \<open>The entries of \<open>disposables\<close>: the two PTY subscriptions, the timer and the abort
  listener.\<close>

datatype disposable = OnData | OnExit | ClearTimeout | RemoveAbortListener

text \<open>
  What the code uses of its libraries and cannot be read in the sources: the parser of
  the emulator (\<open>feed b d\<close> is the buffer after parsing \<open>d\<close>), the buffer of a new
  terminal, the key matcher of the host, and the constant \<open>DEFAULT_MAX_BYTES\<close>.
\<close>

record host =
  feed :: "buffer \<Rightarrow> string \<Rightarrow> buffer"
  newTerminal :: "int \<Rightarrow> int \<Rightarrow> buffer"
  matchesKey :: "string \<Rightarrow> string \<Rightarrow> bool"
  DEFAULT_MAX_BYTES :: nat

definition CAPTURE_MAX_BYTES :: "host \<Rightarrow> nat" where
  "CAPTURE_MAX_BYTES h = DEFAULT_MAX_BYTES h"

text \<open>
  The inputs of one call, after validation: \<open>spawnError\<close> is the message of the error
  \<open>spawnPty\<close> throws, if it throws; \<open>timeoutMs\<close> is undefined or the timeout;
  \<open>signal\<close> is undefined or the abort signal, with its \<open>aborted\<close> flag at the call;
  \<open>initialCols\<close> and \<open>initialRows\<close> are the size computed from the host's terminal.
\<close>

record params =
  spawnError :: "string option"
  timeoutMs :: "nat option"
  signal :: "bool option"
  initialCols :: int
  initialRows :: int

record session =
  o_buf :: buffer
  o_writes :: "writeItem list"
  o_state :: overlayState
  o_exitCode :: "int option"
  o_inputHandlers :: bool
  o_disposeHandler :: bool
  o_disposed :: bool
  v_dismissedByUser :: bool
  v_timedOut :: bool
  v_finished :: bool
  v_pty :: bool
  v_disposables :: "disposable list"
  e_onData :: bool
  e_onExit :: bool
  e_timer :: bool
  e_abortListener :: bool
  e_aborted :: "bool option"
  done_calls :: "executionResult list"
  dispose_calls :: "disposable list"
  pty_writes :: "string list"
  pty_kills :: "string list"
  captures :: nat

text \<open>
  The fields \<open>o_\<close> are the component (\<open>o_buf\<close> and \<open>o_writes\<close> its terminal: the parsed
  buffer and the queue of writes; \<open>o_inputHandlers\<close> and \<open>o_disposeHandler\<close> say
  whether the handlers of \<open>execute\<close> are installed in place of the initial no-ops). The
  fields \<open>v_\<close> are the variables of \<open>execute\<close>; \<open>v_pty\<close> says that \<open>pty\<close> is not null.
  The fields \<open>e_\<close> are the registrations: the two PTY listeners, the armed timer, the
  abort listener, and the signal's \<open>aborted\<close> flag (\<open>None\<close> without a signal). The rest
  is the log: the results passed to \<open>done\<close>, the disposables disposed, the data passed
  to \<open>pty.write\<close>, the signals passed to \<open>pty.kill\<close>, and how often the buffer was read
  for a capture.
\<close>

subsection \<open>The component\<close>

definition appendOutput :: "string \<Rightarrow> session \<Rightarrow> session" where
  "appendOutput chunk s = s \<lparr> o_writes := o_writes s @ [Write chunk None] \<rparr>"

definition setComplete :: "int option \<Rightarrow> bool \<Rightarrow> bool \<Rightarrow> session \<Rightarrow> session" where
  "setComplete ec tOut dismissed s =
     s \<lparr> o_exitCode := ec,
         o_state := (if tOut then Timed_out else if dismissed then Killed else Complete) \<rparr>"

text \<open>\<open>flush(callback)\<close> is \<open>this.#term.write("", callback)\<close>.\<close>

definition flush :: "flushClosure \<Rightarrow> session \<Rightarrow> session" where
  "flush cb s = s \<lparr> o_writes := o_writes s @ [Write [] (Some cb)] \<rparr>"

subsection \<open>The callbacks of execute\<close>

definition disposeOne :: "session \<Rightarrow> disposable \<Rightarrow> session" where
  "disposeOne s d =
     (let s' = s \<lparr> dispose_calls := dispose_calls s @ [d] \<rparr>
      in case d of
           OnData \<Rightarrow> s' \<lparr> e_onData := False \<rparr>
         | OnExit \<Rightarrow> s' \<lparr> e_onExit := False \<rparr>
         | ClearTimeout \<Rightarrow> s' \<lparr> e_timer := False \<rparr>
         | RemoveAbortListener \<Rightarrow> s' \<lparr> e_abortListener := False \<rparr>)"

definition finish :: "executionResult \<Rightarrow> session \<Rightarrow> session" where
  "finish result s =
     (if v_finished s then s
      else
        let s1 = foldl disposeOne (s \<lparr> v_finished := True, v_disposables := [] \<rparr>)
                   (v_disposables s)
        in s1 \<lparr> done_calls := done_calls s1 @ [result] \<rparr>)"

text \<open>\<open>pty.kill\<close> may throw when the child is gone; the exception is ignored.\<close>

definition killPty :: "string \<Rightarrow> session \<Rightarrow> session" where
  "killPty sig s =
     (if \<not> v_pty s then s
      else s \<lparr> pty_kills := pty_kills s @ [sig], v_pty := False \<rparr>)"

text \<open>The handler of \<open>pty.onExit\<close>, for the event's \<open>exitCode\<close>. (\<open>tui.requestRender\<close>
  only asks the host to draw.)\<close>

definition onExit :: "int \<Rightarrow> session \<Rightarrow> session" where
  "onExit code s =
     (let exitCode' = (if v_timedOut s then None else Some code);
          abortedBySignal' =
            (e_aborted s = Some True \<and> \<not> v_dismissedByUser s \<and> \<not> v_timedOut s)
      in flush \<lparr> cl_exitCode = exitCode', cl_abortedBySignal = abortedBySignal' \<rparr>
           (setComplete exitCode' (v_timedOut s) (v_dismissedByUser s) s))"

text \<open>The callback given to \<open>flush\<close>.\<close>

definition flushCallback :: "host \<Rightarrow> flushClosure \<Rightarrow> session \<Rightarrow> session" where
  "flushCallback h cb s =
     (if v_finished s then s
      else
        let snapshot = truncateTail (getSnapshot (o_buf s) SCREEN_SNAPSHOT_MAX_LINES)
                         (Some (nat SCREEN_SNAPSHOT_MAX_LINES)) SCREEN_SNAPSHOT_MAX_BYTES;
            sb = getScrollback (o_buf s) SCROLLBACK_MAX_LINES
        in finish
             \<lparr> exitCode = cl_exitCode cb,
               scrollback = truncateTail (sb_text sb) None (CAPTURE_MAX_BYTES h),
               screenSnapshot = snapshot,
               timedOut = v_timedOut s,
               dismissedByUser = v_dismissedByUser s,
               scrollbackTruncated = sb_truncated sb,
               abortedBySignal = cl_abortedBySignal cb \<rparr>
             (s \<lparr> captures := Suc (captures s) \<rparr>))"

text \<open>The two handlers given to \<open>setInputHandlers\<close>. \<open>pty.write\<close> may throw after
  the exit; the exception is ignored.\<close>

definition onInput :: "string \<Rightarrow> session \<Rightarrow> session" where
  "onInput d s = (if \<not> v_pty s then s else s \<lparr> pty_writes := pty_writes s @ [d] \<rparr>)"

definition onDismiss :: "session \<Rightarrow> session" where
  "onDismiss s =
     (if v_dismissedByUser s then s
      else killPty ''SIGKILL'' (s \<lparr> v_dismissedByUser := True \<rparr>))"

definition isEscape :: "host \<Rightarrow> string \<Rightarrow> bool" where
  "isEscape h d \<longleftrightarrow> matchesKey h d ''escape'' \<or> matchesKey h d ''esc''"

definition handleInput :: "host \<Rightarrow> string \<Rightarrow> session \<Rightarrow> session" where
  "handleInput h d s =
     (if o_state s = Running \<and> isEscape h d
        then (if o_inputHandlers s then onDismiss s else s)
      else if o_state s \<noteq> Running then s
      else (if o_inputHandlers s then onInput d s else s))"

text \<open>The timer's callback and the abort listener.\<close>

definition onTimeout :: "session \<Rightarrow> session" where
  "onTimeout s =
     (if v_finished s then s else killPty ''SIGKILL'' (s \<lparr> v_timedOut := True \<rparr>))"

definition onAbort :: "session \<Rightarrow> session" where
  "onAbort s = (if v_finished s then s else killPty ''SIGKILL'' s)"

text \<open>\<open>component.dispose()\<close>: the terminal is disposed and the dispose handler runs.\<close>

definition dispose :: "session \<Rightarrow> session" where
  "dispose s =
     (let s' = s \<lparr> o_disposed := True \<rparr>
      in if o_disposeHandler s then killPty ''SIGKILL'' s' else s')"

subsection \<open>The factory\<close>

definition newSession :: "host \<Rightarrow> params \<Rightarrow> session" where
  "newSession h p =
     \<lparr> o_buf = newTerminal h (max 1 (initialCols p)) (max 1 (initialRows p)),
       o_writes = [], o_state = Running, o_exitCode = None,
       o_inputHandlers = False, o_disposeHandler = False, o_disposed = False,
       v_dismissedByUser = False, v_timedOut = False, v_finished = False, v_pty = False,
       v_disposables = [],
       e_onData = False, e_onExit = False, e_timer = False, e_abortListener = False,
       e_aborted = signal p,
       done_calls = [], dispose_calls = [], pty_writes = [], pty_kills = [], captures = 0 \<rparr>"

definition spawnFailed :: "string \<Rightarrow> executionResult" where
  "spawnFailed msg =
     \<lparr> exitCode = None, scrollback = ''Failed to spawn PTY: '' @ msg, screenSnapshot = [],
       timedOut = False, dismissedByUser = False, scrollbackTruncated = False,
       abortedBySignal = False \<rparr>"

definition start :: "host \<Rightarrow> params \<Rightarrow> session" where
  "start h p =
     (case spawnError p of
        Some msg \<Rightarrow>
          setComplete None False False
            (appendOutput (''\<newline>Failed to spawn PTY: '' @ msg @ ''\<newline>'')
              (finish (spawnFailed msg) (newSession h p)))
      | None \<Rightarrow>
          (newSession h p)
            \<lparr> v_pty := True,
              v_disposables := [OnData, OnExit]
                @ (if timeoutMs p \<noteq> None then [ClearTimeout] else [])
                @ (if signal p \<noteq> None then [RemoveAbortListener] else []),
              e_onData := True, e_onExit := True,
              o_inputHandlers := True, o_disposeHandler := True,
              e_timer := (timeoutMs p \<noteq> None),
              e_abortListener := (signal p \<noteq> None) \<rparr>)"

subsection \<open>Events\<close>

text \<open>
  What the environment can do: the PTY delivers data or its exit, the user presses a
  key, the timer fires, the signal aborts, the emulator parses the next write of its
  queue (and calls its callback), the host disposes the component. A callback runs
  only while it is registered. A write of the empty string changes nothing in the buffer.
  An abort signal aborts once, and its listener is registered with \<open>once\<close>.
\<close>

datatype event =
  PtyData string | PtyExit int | Input string | TimerFires | Abort | XtermParse | Dispose

definition parseNext :: "host \<Rightarrow> session \<Rightarrow> session" where
  "parseNext h s =
     (case o_writes s of
        [] \<Rightarrow> s
      | w # q \<Rightarrow>
          let s' = s \<lparr> o_writes := q,
                       o_buf := (if writeData w = [] then o_buf s
                                 else feed h (o_buf s) (writeData w)) \<rparr>
          in case writeCallback w of None \<Rightarrow> s' | Some cb \<Rightarrow> flushCallback h cb s')"

definition abortEvent :: "session \<Rightarrow> session" where
  "abortEvent s =
     (if e_aborted s = Some False
        then (let s' = s \<lparr> e_aborted := Some True \<rparr>
              in if e_abortListener s then onAbort (s' \<lparr> e_abortListener := False \<rparr>) else s')
      else s)"

fun step :: "host \<Rightarrow> session \<Rightarrow> event \<Rightarrow> session" where
  "step h s (PtyData d) = (if e_onData s then appendOutput d s else s)"
| "step h s (PtyExit code) = (if e_onExit s then onExit code s else s)"
| "step h s (Input d) = handleInput h d s"
| "step h s TimerFires = (if e_timer s then onTimeout (s \<lparr> e_timer := False \<rparr>) else s)"
| "step h s Abort = abortEvent s"
| "step h s XtermParse = parseNext h s"
| "step h s Dispose = dispose s"

definition run :: "host \<Rightarrow> event list \<Rightarrow> session \<Rightarrow> session" where
  "run h evs s = foldl (step h) s evs"

subsection \<open>The end of execute\<close>

record details =
  d_exitCode :: "int option"
  d_timedOut :: bool
  d_dismissedByUser :: bool
  d_scrollbackTruncated :: bool

datatype toolFailure = ToolAbortError string | ToolError string

definition boolText :: "bool \<Rightarrow> string" where
  "boolText b = (if b then ''true'' else ''false'')"

definition formatInteractiveTermResponse :: "executionResult \<Rightarrow> string" where
  "formatInteractiveTermResponse r =
     join ''\<newline>''
       ([''Exit code: '' @ (case exitCode r of None \<Rightarrow> ''null'' | Some c \<Rightarrow> showInt c),
         ''Timed out: '' @ boolText (timedOut r),
         ''Dismissed by user: '' @ boolText (dismissedByUser r)]
        @ (if scrollbackTruncated r then [''Output truncated: true''] else [])
        @ [[], ''Captured stdout:'',
           if length (scrollback r) > 0 then scrollback r else ''(no stdout captured)'']
        @ [[], ''Final screen snapshot:'',
           if length (screenSnapshot r) > 0 then screenSnapshot r else ''(empty screen)''])"

text \<open>What \<open>execute\<close> does with the result \<open>done\<close> was called with: it throws
  \<open>ToolAbortError\<close>, or returns the details and the text.\<close>

definition executeOutcome :: "executionResult \<Rightarrow> toolFailure + details \<times> string" where
  "executeOutcome r =
     (if abortedBySignal r then Inl (ToolAbortError ''Interactive terminal aborted.'')
      else Inr (\<lparr> d_exitCode = exitCode r, d_timedOut = timedOut r,
                  d_dismissedByUser = dismissedByUser r,
                  d_scrollbackTruncated = scrollbackTruncated r \<rparr>,
                formatInteractiveTermResponse r))"

subsection \<open>A host for the examples\<close>

text \<open>An emulator without scrolling that puts each chunk on the first empty row, and a
  key matcher that knows the escape key.\<close>

fun putLine :: "string \<Rightarrow> string list \<Rightarrow> string list" where
  "putLine d [] = []"
| "putLine d (l # ls) = (if l = [] then d # ls else l # putLine d ls)"

definition exampleHost :: host where
  "exampleHost =
     \<lparr> feed = (\<lambda>b d. b \<lparr> bufLines := putLine d (bufLines b) \<rparr>),
       newTerminal = (\<lambda>cols rows. \<lparr> baseY = 0, rows = nat rows,
                                   bufLines = replicate (nat rows) [] \<rparr>),
       matchesKey = (\<lambda>d k. d = [ESC] \<and> (k = ''escape'' \<or> k = ''esc'')),
       DEFAULT_MAX_BYTES = 50 * 1024 \<rparr>"

definition exampleParams :: params where
  "exampleParams =
     \<lparr> spawnError = None, timeoutMs = Some 2000, signal = Some False,
       initialCols = 80, initialRows = 5 \<rparr>"

subsection \<open>What holds in every state a session reaches\<close>

text \<open>
  \<open>hasCallback\<close>: a flush callback waits in the queue of the emulator. \<open>sound\<close>
  collects the facts that \<open>start\<close> establishes and every event keeps.
\<close>

definition hasCallback :: "session \<Rightarrow> bool" where
  "hasCallback s \<longleftrightarrow> list_ex (\<lambda>w. writeCallback w \<noteq> None) (o_writes s)"

definition sound :: "session \<Rightarrow> bool" where
  "sound s \<longleftrightarrow>
     (v_finished s \<longrightarrow> length (done_calls s) = 1 \<and> v_disposables s = [] \<and> \<not> e_onExit s
        \<and> \<not> e_onData s \<and> \<not> e_timer s \<and> \<not> e_abortListener s)
   \<and> (\<not> v_finished s \<longrightarrow> done_calls s = [] \<and> dispose_calls s = [] \<and> captures s = 0
        \<and> e_onExit s \<and> e_onData s \<and> o_inputHandlers s)
   \<and> distinct (v_disposables s) \<and> distinct (dispose_calls s) \<and> captures s \<le> 1
   \<and> (v_finished s \<and> o_inputHandlers s \<longrightarrow> captures s = 1)
   \<and> (v_finished s \<or> hasCallback s \<longrightarrow> o_state s \<noteq> Running)
   \<and> (v_dismissedByUser s \<longrightarrow> \<not> v_pty s)
   \<and> (o_inputHandlers s \<and> \<not> v_pty s \<longrightarrow> pty_kills s \<noteq> [])
   \<and> set (pty_kills s) \<subseteq> {''SIGKILL''}
   \<and> (e_onExit s \<longrightarrow> OnExit \<in> set (v_disposables s))
   \<and> (e_onData s \<longrightarrow> OnData \<in> set (v_disposables s))
   \<and> (e_timer s \<longrightarrow> ClearTimeout \<in> set (v_disposables s))
   \<and> (e_abortListener s \<longrightarrow> RemoveAbortListener \<in> set (v_disposables s))"

text \<open>A session whose buffer holds 2001 rows.\<close>

definition fullSession :: session where
  "fullSession = (start exampleHost exampleParams)
     \<lparr> o_buf := \<lparr> baseY = 1996, rows = 5, bufLines = replicate 2000 ''x'' @ [''last''] \<rparr> \<rparr>"

text \<open>The buffer after the emulator has parsed the chunks \<open>ds\<close> in order.\<close>

definition feedAll :: "host \<Rightarrow> buffer \<Rightarrow> string list \<Rightarrow> buffer" where
  "feedAll h b ds = foldl (\<lambda>b d. if d = [] then b else feed h b d) b ds"

text \<open>
  The closure \<open>pty.onExit\<close> hands to \<open>flush\<close> in state \<open>s\<close>, the closures waiting in
  the emulator's queue, and what it means for a trace of events that an exit was handled
  at a moment when the signal had aborted and the session was neither dismissed nor
  timed out.
\<close>

definition exitClosure :: "int \<Rightarrow> session \<Rightarrow> flushClosure" where
  "exitClosure code s =
     \<lparr> cl_exitCode = (if v_timedOut s then None else Some code),
       cl_abortedBySignal =
         (e_aborted s = Some True \<and> \<not> v_dismissedByUser s \<and> \<not> v_timedOut s) \<rparr>"

definition callbacks :: "session \<Rightarrow> flushClosure list" where
  "callbacks s = List.map_filter writeCallback (o_writes s)"

definition exitedOnAbort :: "host \<Rightarrow> params \<Rightarrow> event list \<Rightarrow> bool" where
  "exitedOnAbort h p evs \<longleftrightarrow>
     (\<exists>pre code post. evs = pre @ PtyExit code # post
        \<and> e_onExit (run h pre (start h p))
        \<and> e_aborted (run h pre (start h p)) = Some True
        \<and> \<not> v_dismissedByUser (run h pre (start h p))
        \<and> \<not> v_timedOut (run h pre (start h p)))"

text \<open>After the timer has fired: the flag is set, and every waiting closure and every
  result carries no exit code.\<close>

definition timedOutState :: "session \<Rightarrow> bool" where
  "timedOutState s \<longleftrightarrow>
     v_timedOut s
   \<and> list_all (\<lambda>cb. cl_exitCode cb = None) (callbacks s)
   \<and> list_all (\<lambda>r. exitCode r = None \<and> timedOut r) (done_calls s)"

text \<open>Every waiting closure and every result that says "aborted by signal" goes back to
  an exit handled after the abort, by a session neither dismissed nor timed out.\<close>

definition abortTraced :: "host \<Rightarrow> params \<Rightarrow> event list \<Rightarrow> bool" where
  "abortTraced h p evs \<longleftrightarrow>
     (\<forall>cb \<in> set (callbacks (run h evs (start h p))). cl_abortedBySignal cb \<longrightarrow>
        exitedOnAbort h p evs \<and> \<not> v_dismissedByUser (run h evs (start h p)))
   \<and> (\<forall>r \<in> set (done_calls (run h evs (start h p))). abortedBySignal r \<longrightarrow>
        exitedOnAbort h p evs \<and> \<not> dismissedByUser r)"

section \<open>Facts about the capture\<close>

lemma shiftBlank_dropWhile: "shiftBlank ls = dropWhile isBlankLine ls"
  by (induction ls) auto

lemma popBlank_dropWhile: "popBlank ls = rev (dropWhile isBlankLine (rev ls))"
proof (induction ls rule: popBlank.induct)
  case (1 ls)
  show ?case
  proof (cases "ls \<noteq> [] \<and> isBlankLine (last ls)")
    case True
    then obtain xs x where ls: "ls = xs @ [x]" and bl: "isBlankLine x"
      by (metis append_butlast_last_id)
    from 1 True have "popBlank (butlast ls) = rev (dropWhile isBlankLine (rev (butlast ls)))"
      by blast
    with ls bl show ?thesis
      by (subst popBlank.simps) simp
  next
    case False
    then show ?thesis
      by (subst popBlank.simps) (cases ls rule: rev_cases, auto)
  qed
qed

lemma trimEnd_Nil [simp]: "trimEnd [] = []"
  by (simp add: trimEnd_def)

lemma trimEnd_idem [simp]: "trimEnd (trimEnd s) = trimEnd s"
  by (simp add: trimEnd_def)

lemma lineText_translated: "lineText b y = trimEnd (translated b y)"
  by (simp add: lineText_def translated_def split: option.split)

lemma blankStripped_trim: "blankStripped raw (popBlank (shiftBlank raw))"
proof -
  define d where "d = dropWhile isBlankLine raw"
  define ls where "ls = rev (dropWhile isBlankLine (rev d))"
  define post where "post = rev (takeWhile isBlankLine (rev d))"
  have d_split: "d = ls @ post"
  proof -
    have "ls @ post = rev (takeWhile isBlankLine (rev d) @ dropWhile isBlankLine (rev d))"
      by (simp only: ls_def post_def rev_append)
    also have "\<dots> = d"
      by (simp only: takeWhile_dropWhile_id rev_rev_ident)
    finally show ?thesis
      by simp
  qed
  have raw_split: "raw = takeWhile isBlankLine raw @ ls @ post"
  proof -
    have "raw = takeWhile isBlankLine raw @ d"
      by (simp only: d_def takeWhile_dropWhile_id)
    then show ?thesis
      by (simp only: d_split [symmetric])
  qed
  have pre_blank: "list_all isBlankLine (takeWhile isBlankLine raw)"
    by (auto simp: list_all_iff dest: set_takeWhileD)
  have post_blank: "list_all isBlankLine post"
    by (auto simp: post_def list_all_iff dest: set_takeWhileD)
  have ends: "\<not> isBlankLine (hd ls) \<and> \<not> isBlankLine (last ls)" if ne: "ls \<noteq> []"
  proof
    from ne have dne: "d \<noteq> []"
      using d_split by auto
    have "hd ls = hd d"
      using ne d_split by (cases ls) auto
    moreover have "\<not> isBlankLine (hd d)"
      using dne unfolding d_def by (rule hd_dropWhile)
    ultimately show "\<not> isBlankLine (hd ls)"
      by simp
    from ne have ne': "dropWhile isBlankLine (rev d) \<noteq> []"
      by (simp add: ls_def)
    have "last ls = hd (dropWhile isBlankLine (rev d))"
      using ne' by (simp add: ls_def last_rev)
    moreover have "\<not> isBlankLine (hd (dropWhile isBlankLine (rev d)))"
      using ne' by (rule hd_dropWhile)
    ultimately show "\<not> isBlankLine (last ls)"
      by simp
  qed
  have "popBlank (shiftBlank raw) = ls"
    by (simp add: popBlank_dropWhile shiftBlank_dropWhile ls_def d_def)
  moreover have "blankStripped raw ls"
    unfolding blankStripped_def using raw_split pre_blank post_blank ends by blast
  ultimately show ?thesis
    by simp
qed

lemma set_popBlank_shiftBlank: "set (popBlank (shiftBlank raw)) \<subseteq> set raw"
proof -
  have "set (dropWhile isBlankLine (rev (dropWhile isBlankLine raw)))
          \<subseteq> set (rev (dropWhile isBlankLine raw))"
    by (rule set_dropWhileD [THEN subsetI])
  also have "\<dots> \<subseteq> set raw"
    by (auto dest: set_dropWhileD)
  finally show ?thesis
    by (simp add: popBlank_dropWhile shiftBlank_dropWhile)
qed

lemma length_popBlank_shiftBlank: "length (popBlank (shiftBlank raw)) \<le> length raw"
proof -
  have "length (dropWhile isBlankLine (rev (dropWhile isBlankLine raw)))
          \<le> length (rev (dropWhile isBlankLine raw))"
    by (rule length_dropWhile_le)
  also have "\<dots> \<le> length raw"
    by (simp add: length_dropWhile_le)
  finally show ?thesis
    by (simp add: popBlank_dropWhile shiftBlank_dropWhile)
qed

lemma getPlainLines_window:
  assumes "0 < m"
  shows "getPlainLines b m =
           popBlank (shiftBlank (map (lineText b)
             [nat (max 0 (int (nat (max 0 (int (baseY b) + int (rows b) - 1))) - m + 1))
                ..< Suc (nat (max 0 (int (baseY b) + int (rows b) - 1)))]))"
proof -
  define lastAbsY where "lastAbsY = nat (max 0 (int (baseY b) + int (rows b) - 1))"
  define startAbsY where "startAbsY = nat (max 0 (int lastAbsY - m + 1))"
  define out where "out = popBlank (shiftBlank (map (lineText b) [startAbsY ..< Suc lastAbsY]))"
  have "length out \<le> length (map (lineText b) [startAbsY ..< Suc lastAbsY])"
    unfolding out_def by (rule length_popBlank_shiftBlank)
  also have "\<dots> \<le> nat m"
    using assms by (simp add: startAbsY_def) linarith
  finally have "drop (length out - nat m) out = out"
    by simp
  moreover have "\<not> m \<le> 0"
    using assms by simp
  then have "getPlainLines b m = drop (length out - nat m) out"
    unfolding getPlainLines_def out_def startAbsY_def lastAbsY_def Let_def
    by (simp only: if_False)
  ultimately show ?thesis
    by (simp only: out_def startAbsY_def lastAbsY_def)
qed

lemma lineText_trimmed: "list_all (\<lambda>l. trimEnd l = l) (map (lineText b) ys)"
  by (simp add: list_all_iff lineText_translated)

lemma list_all_popBlank_shiftBlank:
  "list_all P raw \<Longrightarrow> list_all P (popBlank (shiftBlank raw))"
  using set_popBlank_shiftBlank [of raw] by (auto simp: list_all_iff)

lemma map_lineText: "map (lineText b) ys = map (\<lambda>y. trimEnd (translated b y)) ys"
  by (simp add: lineText_translated)

lemma getScrollback_stripped:
  "\<exists>ls. sb_text (getScrollback b n) = join ''\<newline>'' ls
      \<and> blankStripped (map (\<lambda>y. trimEnd (translated b y)) (scrollbackWindow b n)) ls
      \<and> list_all (\<lambda>l. trimEnd l = l) ls"
proof (intro exI conjI)
  let ?raw = "map (lineText b) (scrollbackWindow b n)"
  show "sb_text (getScrollback b n) = join ''\<newline>'' (popBlank (shiftBlank ?raw))"
    by (simp add: getScrollback_def scrollbackWindow_def Let_def)
  show "blankStripped (map (\<lambda>y. trimEnd (translated b y)) (scrollbackWindow b n))
          (popBlank (shiftBlank ?raw))"
    using blankStripped_trim [of ?raw] by (simp only: map_lineText)
  show "list_all (\<lambda>l. trimEnd l = l) (popBlank (shiftBlank ?raw))"
    by (rule list_all_popBlank_shiftBlank) (rule lineText_trimmed)
qed

lemma getSnapshot_stripped:
  assumes "0 < m"
  shows "\<exists>ls. getSnapshot b m = join ''\<newline>'' ls
      \<and> blankStripped (map (\<lambda>y. trimEnd (translated b y)) (snapshotWindow b m)) ls
      \<and> list_all (\<lambda>l. trimEnd l = l) ls"
proof (intro exI conjI)
  let ?raw = "map (lineText b) (snapshotWindow b m)"
  have lines: "getPlainLines b m = popBlank (shiftBlank ?raw)"
    using getPlainLines_window [OF assms, of b] by (simp only: snapshotWindow_def)
  show "getSnapshot b m = join ''\<newline>'' (popBlank (shiftBlank ?raw))"
    by (simp only: getSnapshot_def lines)
  show "blankStripped (map (\<lambda>y. trimEnd (translated b y)) (snapshotWindow b m))
          (popBlank (shiftBlank ?raw))"
    using blankStripped_trim [of ?raw] by (simp only: map_lineText)
  show "list_all (\<lambda>l. trimEnd l = l) (popBlank (shiftBlank ?raw))"
    by (rule list_all_popBlank_shiftBlank) (rule lineText_trimmed)
qed

lemma hello_scrollback:
  "sb_text (getScrollback helloBuffer SCROLLBACK_MAX_LINES) = ''hello''"
  by code_simp

lemma hello_snapshot:
  "getSnapshot helloBuffer SCREEN_SNAPSHOT_MAX_LINES = ''hello''"
  by code_simp

text \<open>
  Claim C10. The text \<open>getScrollback\<close> returns and the text \<open>getSnapshot\<close> returns are
  each the lines of the window they read, every line with its trailing whitespace
  removed, with the blank lines stripped at both ends and the rest joined by newlines.
  A buffer whose rows are "", "", "hello", "", "" gives "hello" for both.
\<close>

theorem capture_strips_blank_lines:
  "(\<forall>b n. \<exists>ls. sb_text (getScrollback b n) = join ''\<newline>'' ls
        \<and> blankStripped (map (\<lambda>y. trimEnd (translated b y)) (scrollbackWindow b n)) ls
        \<and> list_all (\<lambda>l. trimEnd l = l) ls)
   \<and> (\<forall>b m. 0 < m \<longrightarrow> (\<exists>ls. getSnapshot b m = join ''\<newline>'' ls
        \<and> blankStripped (map (\<lambda>y. trimEnd (translated b y)) (snapshotWindow b m)) ls
        \<and> list_all (\<lambda>l. trimEnd l = l) ls))
   \<and> sb_text (getScrollback helloBuffer SCROLLBACK_MAX_LINES) = ''hello''
   \<and> getSnapshot helloBuffer SCREEN_SNAPSHOT_MAX_LINES = ''hello''"
  using getScrollback_stripped getSnapshot_stripped hello_scrollback hello_snapshot
  by blast

theorem capture_strips_blank_lines_witness:
  "(0::int) < 200
   \<and> (\<exists>ls. getSnapshot sampleBuffer 200 = join ''\<newline>'' ls
        \<and> blankStripped (map (\<lambda>y. trimEnd (translated sampleBuffer y))
              (snapshotWindow sampleBuffer 200)) ls
        \<and> list_all (\<lambda>l. trimEnd l = l) ls)
   \<and> getSnapshot sampleBuffer 200 = ''ab'' @ ''\<newline>'' @ ''\<newline>'' @ ''c''"
proof -
  have pos: "(0::int) < 200"
    by simp
  have snap: "getSnapshot sampleBuffer 200 = ''ab'' @ ''\<newline>'' @ ''\<newline>'' @ ''c''"
    by code_simp
  from capture_strips_blank_lines pos snap show ?thesis
    by blast
qed

section \<open>Facts about the renderer\<close>

text \<open>Rendering does not depend on the columns already passed: a row can be cut at any
  column the loop stands on.\<close>

lemma renderLoop_shift:
  "renderLoop (Some (pre @ rest)) (length pre + W) (length pre + x) out k
     = renderLoop (Some rest) W x out k"
proof (induction "W - x" arbitrary: x out k rule: less_induct)
  case less
  have cell: "getCell (Some (pre @ rest)) (length pre + x) = getCell (Some rest) x"
    by (simp add: getCell_def nth_append)
  show ?case
  proof (cases "x < W")
    case False
    then show ?thesis
      by (simp add: renderLoop.simps [of _ _ x] renderLoop.simps [of _ _ "length pre + x"])
  next
    case True
    then have d1: "W - (x + 1) < W - x"
      by simp
    note ih1 = less [OF d1]
    show ?thesis
    proof (cases "getCell (Some rest) x")
      case None
      with True cell ih1 show ?thesis
        by (simp add: renderLoop.simps [of _ _ x] renderLoop.simps [of _ _ "length pre + x"]
            add.assoc [symmetric])
    next
      case (Some c)
      show ?thesis
      proof (cases "getWidth c \<le> 0")
        case w0: True
        with True cell Some ih1 show ?thesis
          by (simp add: renderLoop.simps [of _ _ x] renderLoop.simps [of _ _ "length pre + x"]
              add.assoc [symmetric])
      next
        case wpos: False
        then have d2: "W - (x + nat (getWidth c)) < W - x"
          using True by simp
        note ih2 = less [OF d2]
        from True cell Some wpos ih1 ih2 show ?thesis
          by (simp add: renderLoop.simps [of _ _ x] renderLoop.simps [of _ _ "length pre + x"]
              add.assoc [symmetric])
      qed
    qed
  qed
qed

lemma renderLoop_done: "renderLoop line W W out k = out"
  by (simp add: renderLoop.simps [of _ W W])

lemma renderLoop_drop1:
  "renderLoop (Some (c # cs)) (Suc W) (Suc x) out k = renderLoop (Some cs) W x out k"
  using renderLoop_shift [of "[c]" cs W x out k] by simp

lemma renderLoop_drop2:
  "renderLoop (Some (c # z # cs)) (Suc (Suc W)) (Suc (Suc x)) out k
     = renderLoop (Some cs) W x out k"
  using renderLoop_shift [of "[c, z]" cs W x out k] by simp

text \<open>One step of the loop on a cell that fits.\<close>

lemma renderLoop_cell:
  assumes "x < W" and "getCell line x = Some c" and "0 < getWidth c"
    and "int x + getWidth c \<le> int W"
  shows "renderLoop line W x out p =
           renderLoop line W (x + nat (getWidth c))
             ((if cellStyleKey c \<noteq> p then out @ cellSgr c else out) @ cellText c)
             (cellStyleKey c)"
  using assms by (simp add: renderLoop.simps [of line W x])

lemma renderLoop_zero_width:
  assumes "x < W" and "getCell line x = Some z" and "getWidth z \<le> 0"
  shows "renderLoop line W x out p = renderLoop line W (Suc x) out p"
  using assms by (simp add: renderLoop.simps [of line W x])

lemma renderLoop_overflow:
  assumes "x < W" and "getCell line x = Some c" and "0 < getWidth c"
    and "int W < int x + getWidth c"
  shows "renderLoop line W x out p = renderLoop line W (Suc x) (pad out p) ''d''"
  using assms by (simp add: renderLoop.simps [of line W x])

lemma renderLoop_missing:
  assumes "x < W" and "getCell line x = None"
  shows "renderLoop line W x out p = renderLoop line W (Suc x) (pad out p) ''d''"
  using assms by (simp add: renderLoop.simps [of line W x])

text \<open>A wide cell in the last column: the loop ends with the padding.\<close>

lemma wide_in_last_column:
  assumes "2 \<le> getWidth c"
  shows "renderLoop (Some (pre @ c # rest)) (Suc (length pre)) (length pre) out p = pad out p"
proof -
  have "renderLoop (Some (pre @ c # rest)) (length pre + 1) (length pre + 0) out p
          = renderLoop (Some (c # rest)) 1 0 out p"
    by (rule renderLoop_shift)
  also have "\<dots> = renderLoop (Some (c # rest)) 1 (Suc 0) (pad out p) ''d''"
    using assms by (intro renderLoop_overflow) (auto simp: getCell_def)
  also have "\<dots> = pad out p"
    using renderLoop_done [of _ 1] by simp
  finally show ?thesis
    by simp
qed

text \<open>A well laid row in one style: the style is switched on before the first cell if
  it is not on already, and then only the characters of the cells are written.\<close>

lemma uniform_run:
  assumes "wellLaid cs" and "\<forall>c \<in> set (lead cs). cellStyleKey c = k"
  shows "renderLoop (Some cs) (length cs) 0 out p
           = (if cs \<noteq> [] \<and> k \<noteq> p then out @ cellSgr (hd cs) else out)
               @ concat (map cellText (lead cs))"
  using assms
proof (induction cs arbitrary: out p rule: wellLaid.induct)
  case 1
  show ?case
    using renderLoop_done [of _ 0] by simp
next
  case (2 c)
  then have "renderLoop (Some [c]) 1 0 out p = renderLoop (Some [c]) 1 (0 + nat (getWidth c))
               ((if cellStyleKey c \<noteq> p then out @ cellSgr c else out) @ cellText c)
               (cellStyleKey c)"
    by (intro renderLoop_cell) (auto simp: getCell_def)
  with 2 show ?case
    using renderLoop_done [of _ 1] by simp
next
  case (3 c z cs)
  let ?row = "c # z # cs"
  let ?out = "(if k \<noteq> p then out @ cellSgr c else out) @ cellText c"
  have key: "cellStyleKey c = k"
    using 3 by (simp split: if_splits)
  show ?case
  proof (cases "getWidth c = 2")
    case True
    have "renderLoop (Some ?row) (length ?row) 0 out p
            = renderLoop (Some ?row) (length ?row) (0 + nat (getWidth c))
               ((if cellStyleKey c \<noteq> p then out @ cellSgr c else out) @ cellText c)
               (cellStyleKey c)"
      using True by (intro renderLoop_cell) (auto simp: getCell_def)
    also have "\<dots> = renderLoop (Some ?row) (Suc (Suc (length cs))) (Suc (Suc 0)) ?out k"
      using True key by (simp add: numeral_2_eq_2)
    also have "\<dots> = renderLoop (Some cs) (length cs) 0 ?out k"
      by (rule renderLoop_drop2)
    also have "\<dots> = ?out @ concat (map cellText (lead cs))"
      using 3 True by simp
    finally show ?thesis
      using True by simp
  next
    case False
    with 3 have w1: "getWidth c = 1"
      by simp
    have "renderLoop (Some ?row) (length ?row) 0 out p
            = renderLoop (Some ?row) (length ?row) (0 + nat (getWidth c))
               ((if cellStyleKey c \<noteq> p then out @ cellSgr c else out) @ cellText c)
               (cellStyleKey c)"
      using w1 by (intro renderLoop_cell) (auto simp: getCell_def)
    also have "\<dots> = renderLoop (Some ?row) (Suc (length (z # cs))) (Suc 0) ?out k"
      using w1 key by simp
    also have "\<dots> = renderLoop (Some (z # cs)) (length (z # cs)) 0 ?out k"
      by (rule renderLoop_drop1)
    also have "\<dots> = ?out @ concat (map cellText (lead (z # cs)))"
      using 3 False by simp
    finally show ?thesis
      using False by simp
  qed
qed

lemma uniform_row:
  assumes "wellLaid cs" and "cs \<noteq> []" and "\<forall>c \<in> set (lead cs). cellStyleKey c = k"
    and "k \<noteq> ''d''"
  shows "renderBufferLineAnsi (Some cs) (length cs)
           = RESET @ cellSgr (hd cs) @ concat (map cellText (lead cs)) @ RESET"
  using assms uniform_run [of cs k RESET "''d''"] by (simp add: renderBufferLineAnsi_def)

text \<open>
  Claim C9, as the code has it. (1) A well laid row whose cells share one style other
  than the default is rendered as the opening reset, one style sequence, the characters
  of the cells and the closing reset. (2) On a cell of width zero or less the loop writes
  nothing and keeps the style, and goes on at the next column: the cell takes a column of
  the row width. (3) A cell of width two or more that stands in the last column is not
  written: the loop ends with the padding (a reset if a style is on, and one space).
  (4) Every rendered row ends with the reset.
\<close>

theorem renderBufferLineAnsi_rows:
  "(\<forall>cs k. wellLaid cs \<and> cs \<noteq> [] \<and> (\<forall>c \<in> set (lead cs). cellStyleKey c = k) \<and> k \<noteq> ''d'' \<longrightarrow>
       renderBufferLineAnsi (Some cs) (length cs)
         = RESET @ cellSgr (hd cs) @ concat (map cellText (lead cs)) @ RESET)
   \<and> (\<forall>line W x z out p. x < W \<and> getCell line x = Some z \<and> getWidth z \<le> 0 \<longrightarrow>
       renderLoop line W x out p = renderLoop line W (Suc x) out p)
   \<and> (\<forall>pre c rest out p. 2 \<le> getWidth c \<longrightarrow>
       renderLoop (Some (pre @ c # rest)) (Suc (length pre)) (length pre) out p = pad out p)
   \<and> (\<forall>line W. suffix RESET (renderBufferLineAnsi line W))"
proof (intro conjI allI impI)
  fix cs k
  assume "wellLaid cs \<and> cs \<noteq> [] \<and> (\<forall>c \<in> set (lead cs). cellStyleKey c = k) \<and> k \<noteq> ''d''"
  then show "renderBufferLineAnsi (Some cs) (length cs)
         = RESET @ cellSgr (hd cs) @ concat (map cellText (lead cs)) @ RESET"
    using uniform_row [of cs k] by blast
next
  fix line W x z out p
  assume "x < W \<and> getCell line x = Some z \<and> getWidth z \<le> 0"
  then show "renderLoop line W x out p = renderLoop line W (Suc x) out p"
    using renderLoop_zero_width [of x W line z] by blast
next
  fix pre rest out p and c :: cell
  assume "2 \<le> getWidth c"
  then show "renderLoop (Some (pre @ c # rest)) (Suc (length pre)) (length pre) out p = pad out p"
    by (rule wide_in_last_column)
next
  fix line W
  show "suffix RESET (renderBufferLineAnsi line W)"
    by (simp add: renderBufferLineAnsi_def suffix_def)
qed

theorem renderBufferLineAnsi_rows_witness:
  "wellLaid [boldCell ''x'', wideCell ''W'', zeroCell, boldCell ''y'']
   \<and> list_all (\<lambda>c. cellStyleKey c = ''0:0:0:0:100000'')
        (lead [boldCell ''x'', wideCell ''W'', zeroCell, boldCell ''y''])
   \<and> renderBufferLineAnsi (Some [boldCell ''x'', wideCell ''W'', zeroCell, boldCell ''y'']) 4
        = RESET @ (ESC # ''[0;1m'') @ ''xWy'' @ RESET
   \<and> getCell (Some [boldCell ''x'', zeroCell, boldCell ''z'']) 1 = Some zeroCell
   \<and> getWidth zeroCell \<le> 0
   \<and> renderLoop (Some [boldCell ''x'', zeroCell, boldCell ''z'']) 2 1 ''x'' ''k''
        = renderLoop (Some [boldCell ''x'', zeroCell, boldCell ''z'']) 2 (Suc 1) ''x'' ''k''
   \<and> 2 \<le> getWidth (wideCell ''W'')
   \<and> renderLoop (Some ([boldCell ''x''] @ wideCell ''W'' # [zeroCell]))
        (Suc (length [boldCell ''x''])) (length [boldCell ''x'']) ''x'' ''k''
        = pad ''x'' ''k''
   \<and> pad ''x'' ''k'' = ''x'' @ RESET @ '' ''"
proof -
  let ?row = "[boldCell ''x'', wideCell ''W'', zeroCell, boldCell ''y'']"
  have wl: "wellLaid ?row"
    by code_simp
  have ld: "lead ?row = [boldCell ''x'', wideCell ''W'', boldCell ''y'']"
    by code_simp
  have kx: "cellStyleKey (boldCell ''x'') = ''0:0:0:0:100000''"
    and kw: "cellStyleKey (wideCell ''W'') = ''0:0:0:0:100000''"
    and ky: "cellStyleKey (boldCell ''y'') = ''0:0:0:0:100000''"
    by code_simp+
  have keys: "\<forall>c \<in> set (lead ?row). cellStyleKey c = ''0:0:0:0:100000''"
    by (simp only: ld) (simp add: kx kw ky)
  then have keysL: "list_all (\<lambda>c. cellStyleKey c = ''0:0:0:0:100000'') (lead ?row)"
    by (simp only: list_all_iff)
  have sgr: "cellSgr (hd ?row) = ESC # ''[0;1m''"
    by code_simp
  have chars: "concat (map cellText (lead ?row)) = ''xWy''"
    by code_simp
  have len: "length ?row = 4"
    by simp
  have "renderBufferLineAnsi (Some ?row) (length ?row)
         = RESET @ cellSgr (hd ?row) @ concat (map cellText (lead ?row)) @ RESET"
    using renderBufferLineAnsi_rows wl keys by blast
  then have r1: "renderBufferLineAnsi (Some ?row) 4 = RESET @ (ESC # ''[0;1m'') @ ''xWy'' @ RESET"
    by (simp only: sgr chars len)
  have c1: "getCell (Some [boldCell ''x'', zeroCell, boldCell ''z'']) 1 = Some zeroCell"
    by (simp add: getCell_def)
  have z0: "getWidth zeroCell \<le> 0"
    by (simp add: zeroCell_def)
  have lt: "(1::nat) < 2"
    by simp
  have r2: "renderLoop (Some [boldCell ''x'', zeroCell, boldCell ''z'']) 2 1 ''x'' ''k''
        = renderLoop (Some [boldCell ''x'', zeroCell, boldCell ''z'']) 2 (Suc 1) ''x'' ''k''"
    using renderBufferLineAnsi_rows lt c1 z0 by blast
  have w2: "2 \<le> getWidth (wideCell ''W'')"
    by (simp add: wideCell_def)
  have r3: "renderLoop (Some ([boldCell ''x''] @ wideCell ''W'' # [zeroCell]))
              (Suc (length [boldCell ''x''])) (length [boldCell ''x'']) ''x'' ''k'' = pad ''x'' ''k''"
    using renderBufferLineAnsi_rows w2 by blast
  have pd: "pad ''x'' ''k'' = ''x'' @ RESET @ '' ''"
    by (simp add: pad_def)
  from wl keysL r1 c1 z0 r2 w2 r3 pd show ?thesis
    by blast
qed

text \<open>
  Claim C9 as it is worded has a cell of width zero take no column. It takes one: in a
  row of width two, the cell after a cell of width zero is not reached, while without
  the cell of width zero both cells are written.
\<close>

theorem zero_width_cell_takes_a_column:
  "getWidth zeroCell \<le> 0
   \<and> renderBufferLineAnsi (Some [boldCell ''x'', zeroCell, boldCell ''z'']) 2
        = RESET @ cellSgr (boldCell ''x'') @ ''x'' @ RESET
   \<and> renderBufferLineAnsi (Some [boldCell ''x'', boldCell ''z'']) 2
        = RESET @ cellSgr (boldCell ''x'') @ ''xz'' @ RESET"
  by code_simp

section \<open>Facts about the session\<close>

lemma foldl_disposeOne:
  "foldl disposeOne s ds =
     s \<lparr> dispose_calls := dispose_calls s @ ds,
         e_onData := e_onData s \<and> OnData \<notin> set ds,
         e_onExit := e_onExit s \<and> OnExit \<notin> set ds,
         e_timer := e_timer s \<and> ClearTimeout \<notin> set ds,
         e_abortListener := e_abortListener s \<and> RemoveAbortListener \<notin> set ds \<rparr>"
proof (induction ds arbitrary: s)
  case Nil
  show ?case
    by simp
next
  case (Cons d ds)
  have "foldl disposeOne s (d # ds) =
          (disposeOne s d) \<lparr> dispose_calls := dispose_calls (disposeOne s d) @ ds,
             e_onData := e_onData (disposeOne s d) \<and> OnData \<notin> set ds,
             e_onExit := e_onExit (disposeOne s d) \<and> OnExit \<notin> set ds,
             e_timer := e_timer (disposeOne s d) \<and> ClearTimeout \<notin> set ds,
             e_abortListener := e_abortListener (disposeOne s d)
                \<and> RemoveAbortListener \<notin> set ds \<rparr>"
    by (simp only: foldl_Cons Cons)
  also have "\<dots> =
          s \<lparr> dispose_calls := dispose_calls s @ d # ds,
              e_onData := e_onData s \<and> OnData \<notin> set (d # ds),
              e_onExit := e_onExit s \<and> OnExit \<notin> set (d # ds),
              e_timer := e_timer s \<and> ClearTimeout \<notin> set (d # ds),
              e_abortListener := e_abortListener s \<and> RemoveAbortListener \<notin> set (d # ds) \<rparr>"
    by (cases d) (simp_all add: disposeOne_def Let_def conj_ac)
  finally show ?case .
qed

text \<open>\<open>finish\<close>, written out.\<close>

lemma finish_eq:
  "finish r s =
     (if v_finished s then s
      else s \<lparr> v_finished := True, v_disposables := [],
               dispose_calls := dispose_calls s @ v_disposables s,
               e_onData := e_onData s \<and> OnData \<notin> set (v_disposables s),
               e_onExit := e_onExit s \<and> OnExit \<notin> set (v_disposables s),
               e_timer := e_timer s \<and> ClearTimeout \<notin> set (v_disposables s),
               e_abortListener := e_abortListener s
                  \<and> RemoveAbortListener \<notin> set (v_disposables s),
               done_calls := done_calls s @ [r] \<rparr>)"
  by (simp add: finish_def foldl_disposeOne Let_def)

lemmas callback_defs =
  appendOutput_def setComplete_def flush_def killPty_def onExit_def flushCallback_def
  onInput_def onDismiss_def handleInput_def onTimeout_def onAbort_def dispose_def
  parseNext_def abortEvent_def finish_eq Let_def

lemma sound_start: "sound (start h p)"
  by (cases "spawnError p")
     (auto simp: sound_def start_def newSession_def hasCallback_def callback_defs)

lemma sound_PtyData: "sound s \<Longrightarrow> sound (step h s (PtyData d))"
  by (auto simp: sound_def hasCallback_def callback_defs)

lemma sound_PtyExit: "sound s \<Longrightarrow> sound (step h s (PtyExit c))"
  by (auto simp: sound_def hasCallback_def callback_defs)

lemma sound_Input: "sound s \<Longrightarrow> sound (step h s (Input d))"
  by (auto simp: sound_def hasCallback_def callback_defs)

lemma sound_TimerFires: "sound s \<Longrightarrow> sound (step h s TimerFires)"
  by (auto simp: sound_def hasCallback_def callback_defs)

lemma sound_Abort: "sound s \<Longrightarrow> sound (step h s Abort)"
  by (auto simp: sound_def hasCallback_def callback_defs)

lemma sound_Dispose: "sound s \<Longrightarrow> sound (step h s Dispose)"
  by (auto simp: sound_def hasCallback_def callback_defs)

lemma sound_XtermParse: "sound s \<Longrightarrow> sound (step h s XtermParse)"
  by (auto simp: sound_def hasCallback_def callback_defs split: list.splits option.splits)

lemma sound_step: "sound s \<Longrightarrow> sound (step h s e)"
  by (cases e)
     (simp_all only: sound_PtyData sound_PtyExit sound_Input sound_TimerFires sound_Abort
        sound_Dispose sound_XtermParse)

lemma run_snoc: "run h (evs @ [e]) s = step h (run h evs s) e"
  by (simp add: run_def)

lemma run_Cons: "run h (e # evs) s = run h evs (step h s e)"
  by (simp add: run_def)

lemma run_Nil: "run h [] s = s"
  by (simp add: run_def)

lemma run_append: "run h (xs @ ys) s = run h ys (run h xs s)"
  by (simp add: run_def)

lemma sound_run: "sound s \<Longrightarrow> sound (run h evs s)"
  by (induction evs rule: rev_induct) (simp_all add: run_Nil run_snoc sound_step)

lemma sound_reachable: "sound (run h evs (start h p))"
  by (rule sound_run) (rule sound_start)

text \<open>Once the session is finished, no event produces a result, disposes a
  disposable or reads the buffer.\<close>

lemma finished_step:
  assumes "sound s" and "v_finished s"
  shows "v_finished (step h s e) \<and> done_calls (step h s e) = done_calls s
       \<and> dispose_calls (step h s e) = dispose_calls s \<and> captures (step h s e) = captures s"
  using assms
  by (cases e) (auto simp: sound_def callback_defs split: list.splits option.splits)

lemma o_writes_parseNext: "o_writes (parseNext h s) = tl (o_writes s)"
  by (auto simp: callback_defs split: list.splits option.splits)

lemma parseNext_callback:
  "o_writes s = Write d (Some cb) # q \<Longrightarrow> v_finished (parseNext h s)"
  by (auto simp: callback_defs)

text \<open>When a flush callback is the last write of the queue, the session is finished
  once the emulator has worked the queue off.\<close>

lemma drain:
  assumes "o_writes s = q @ [Write d (Some cb)]"
  shows "v_finished (run h (replicate (Suc (length q)) XtermParse) s)"
  using assms
proof (induction q arbitrary: s)
  case Nil
  then show ?case
    by (simp add: run_Cons run_Nil parseNext_callback)
next
  case (Cons w q)
  have "o_writes (parseNext h s) = q @ [Write d (Some cb)]"
    using Cons.prems by (simp add: o_writes_parseNext)
  then have "v_finished (run h (replicate (Suc (length q)) XtermParse) (parseNext h s))"
    by (rule Cons.IH)
  then show ?case
    by (simp add: run_Cons)
qed

lemma exit_then_drain:
  assumes "sound s" and "\<not> v_finished s"
  shows "v_finished (run h (PtyExit code # replicate (Suc (length (o_writes s))) XtermParse) s)"
proof -
  have sub: "e_onExit s"
    using assms by (simp add: sound_def)
  have "o_writes (step h s (PtyExit code)) = o_writes s @ [Write [] (Some
          \<lparr> cl_exitCode = (if v_timedOut s then None else Some code),
            cl_abortedBySignal = (e_aborted s = Some True \<and> \<not> v_dismissedByUser s
                \<and> \<not> v_timedOut s) \<rparr>)]"
    using sub by (simp add: callback_defs)
  then have "v_finished (run h (replicate (Suc (length (o_writes s))) XtermParse)
                (step h s (PtyExit code)))"
    by (rule drain)
  then show ?thesis
    by (simp only: run_Cons)
qed

lemma o_inputHandlers_step: "o_inputHandlers (step h s e) = o_inputHandlers s"
  by (cases e) (auto simp: callback_defs split: list.splits option.splits)

lemma o_inputHandlers_run: "o_inputHandlers (run h evs s) = o_inputHandlers s"
  by (induction evs rule: rev_induct) (simp_all add: run_Nil run_snoc o_inputHandlers_step)

lemma sound_done: "sound s \<Longrightarrow> v_finished s \<Longrightarrow> length (done_calls s) = 1"
  by (simp add: sound_def)

lemma sound_not_done: "sound s \<Longrightarrow> \<not> v_finished s \<Longrightarrow> done_calls s = []"
  by (simp add: sound_def)

lemma sound_captured: "sound s \<Longrightarrow> v_finished s \<Longrightarrow> o_inputHandlers s \<Longrightarrow> captures s = 1"
  by (simp add: sound_def)

lemma sound_wired: "sound s \<Longrightarrow> \<not> v_finished s \<Longrightarrow> o_inputHandlers s \<and> e_onExit s \<and> e_onData s"
  by (simp add: sound_def)

lemma sound_once:
  "sound s \<Longrightarrow> length (done_calls s) \<le> 1 \<and> (v_finished s \<longleftrightarrow> length (done_calls s) = 1)
      \<and> captures s \<le> 1 \<and> distinct (dispose_calls s)"
  unfolding sound_def by (cases "v_finished s") simp_all

text \<open>
  Claim C1. In every state a session reaches, whatever the events and their order:
  \<open>done\<close> has been called at most once, and exactly once if and only if \<open>finished\<close>
  is set; the buffer has been read for a capture at most once; no disposable has been
  disposed twice. Once \<open>finished\<close> is set, every further event (a flush callback that
  arrives late among them) leaves it set, emits no result, disposes nothing and reads
  nothing. And the sequence does run: while \<open>finished\<close> is not set, the exit of the
  PTY followed by the emulator working off its queue sets it, with one result and one
  capture.
\<close>

theorem finalize_exactly_once:
  assumes "s = run h evs (start h p)"
  shows "length (done_calls s) \<le> 1
       \<and> (v_finished s \<longleftrightarrow> length (done_calls s) = 1)
       \<and> captures s \<le> 1
       \<and> distinct (dispose_calls s)
       \<and> (v_finished s \<longrightarrow>
            (\<forall>e. v_finished (step h s e) \<and> done_calls (step h s e) = done_calls s
               \<and> dispose_calls (step h s e) = dispose_calls s
               \<and> captures (step h s e) = captures s))
       \<and> (\<not> v_finished s \<longrightarrow>
            (\<forall>code. v_finished
                 (run h (PtyExit code # replicate (Suc (length (o_writes s))) XtermParse) s)
               \<and> length (done_calls
                 (run h (PtyExit code # replicate (Suc (length (o_writes s))) XtermParse) s)) = 1
               \<and> captures
                 (run h (PtyExit code # replicate (Suc (length (o_writes s))) XtermParse) s) = 1))"
proof -
  have snd: "sound s"
    unfolding assms by (rule sound_reachable)
  have once: "length (done_calls s) \<le> 1 \<and> (v_finished s \<longleftrightarrow> length (done_calls s) = 1)
      \<and> captures s \<le> 1 \<and> distinct (dispose_calls s)"
    using snd by (rule sound_once)
  note a = once [THEN conjunct1]
    and b = once [THEN conjunct2, THEN conjunct1]
    and c = once [THEN conjunct2, THEN conjunct2, THEN conjunct1]
    and d = once [THEN conjunct2, THEN conjunct2, THEN conjunct2]
  have inert: "v_finished s \<longrightarrow>
            (\<forall>e. v_finished (step h s e) \<and> done_calls (step h s e) = done_calls s
               \<and> dispose_calls (step h s e) = dispose_calls s
               \<and> captures (step h s e) = captures s)"
  proof (intro impI allI)
    fix e
    assume "v_finished s"
    with snd show "v_finished (step h s e) \<and> done_calls (step h s e) = done_calls s
               \<and> dispose_calls (step h s e) = dispose_calls s
               \<and> captures (step h s e) = captures s"
      by (rule finished_step)
  qed
  have live: "\<not> v_finished s \<longrightarrow>
            (\<forall>code. v_finished
                 (run h (PtyExit code # replicate (Suc (length (o_writes s))) XtermParse) s)
               \<and> length (done_calls
                 (run h (PtyExit code # replicate (Suc (length (o_writes s))) XtermParse) s)) = 1
               \<and> captures
                 (run h (PtyExit code # replicate (Suc (length (o_writes s))) XtermParse) s) = 1)"
  proof (intro impI allI conjI)
    fix code
    assume nf: "\<not> v_finished s"
    define s' where "s' = run h (PtyExit code # replicate (Suc (length (o_writes s))) XtermParse) s"
    have fin: "v_finished s'"
      unfolding s'_def using snd nf by (rule exit_then_drain)
    have snd': "sound s'"
      unfolding s'_def using snd by (rule sound_run)
    have "o_inputHandlers s"
      using sound_wired [OF snd nf] by simp
    then have wired: "o_inputHandlers s'"
      unfolding s'_def by (simp only: o_inputHandlers_run)
    show "v_finished
       (run h (PtyExit code # replicate (Suc (length (o_writes s))) XtermParse) s)"
      using fin unfolding s'_def .
    show "length (done_calls
       (run h (PtyExit code # replicate (Suc (length (o_writes s))) XtermParse) s)) = 1"
      using sound_done [OF snd' fin] unfolding s'_def .
    show "captures
       (run h (PtyExit code # replicate (Suc (length (o_writes s))) XtermParse) s) = 1"
      using sound_captured [OF snd' fin wired] unfolding s'_def .
  qed
  show ?thesis
    by (intro conjI a b c d inert live)
qed

theorem finalize_exactly_once_witness:
  "\<not> v_finished (run exampleHost [] (start exampleHost exampleParams))
   \<and> v_finished (run exampleHost
        (PtyExit 7 # replicate (Suc (length (o_writes
            (run exampleHost [] (start exampleHost exampleParams))))) XtermParse)
        (run exampleHost [] (start exampleHost exampleParams)))
   \<and> length (done_calls (run exampleHost
        (PtyExit 7 # replicate (Suc (length (o_writes
            (run exampleHost [] (start exampleHost exampleParams))))) XtermParse)
        (run exampleHost [] (start exampleHost exampleParams)))) = 1
   \<and> done_calls (step exampleHost (run exampleHost
        (PtyExit 7 # replicate (Suc (length (o_writes
            (run exampleHost [] (start exampleHost exampleParams))))) XtermParse)
        (start exampleHost exampleParams)) TimerFires)
     = done_calls (run exampleHost
        (PtyExit 7 # replicate (Suc (length (o_writes
            (run exampleHost [] (start exampleHost exampleParams))))) XtermParse)
        (start exampleHost exampleParams))"
proof -
  define s0 where "s0 = run exampleHost [] (start exampleHost exampleParams)"
  define evs where "evs = PtyExit 7 # replicate (Suc (length (o_writes s0))) XtermParse"
  define s1 where "s1 = run exampleHost evs (start exampleHost exampleParams)"
  have s0: "s0 = start exampleHost exampleParams"
    by (simp add: s0_def run_Nil)
  have nf: "\<not> v_finished s0"
    by (simp add: s0 start_def newSession_def exampleParams_def)
  have "v_finished (run exampleHost evs s0) \<and> length (done_calls (run exampleHost evs s0)) = 1"
    using finalize_exactly_once [OF s0_def] nf unfolding evs_def by blast
  then have fin: "v_finished s1" and one: "length (done_calls s1) = 1"
    by (simp_all add: s1_def s0)
  have "done_calls (step exampleHost s1 TimerFires) = done_calls s1"
    using finalize_exactly_once [OF s1_def] fin by blast
  with nf fin one show ?thesis
    unfolding s1_def evs_def s0_def by (simp add: run_Nil)
qed

lemma finished_state:
  assumes "sound s" and "v_finished s"
  shows "o_state (step h s e) = o_state s \<and> o_exitCode (step h s e) = o_exitCode s"
  using assms
  by (cases e) (auto simp: sound_def callback_defs split: list.splits option.splits)

lemma finished_run:
  assumes "sound s" and "v_finished s"
  shows "v_finished (run h evs s) \<and> done_calls (run h evs s) = done_calls s
       \<and> o_state (run h evs s) = o_state s \<and> o_exitCode (run h evs s) = o_exitCode s"
proof (induction evs rule: rev_induct)
  case Nil
  show ?case
    using assms by (simp add: run_Nil)
next
  case (snoc e evs)
  have snd: "sound (run h evs s)"
    using assms(1) by (rule sound_run)
  from snoc have fin: "v_finished (run h evs s)"
    by simp
  show ?case
    using finished_step [OF snd fin, of h e] finished_state [OF snd fin, of h e] snoc
    by (simp add: run_snoc)
qed

lemma start_spawn_failure:
  assumes "spawnError p = Some msg"
  shows "done_calls (start h p) = [spawnFailed msg]" and "v_finished (start h p)"
    and "o_state (start h p) = Complete" and "o_exitCode (start h p) = None"
    and "o_writes (start h p) = [Write (''\<newline>Failed to spawn PTY: '' @ msg @ ''\<newline>'') None]"
    and "captures (start h p) = 0"
  using assms by (simp_all add: start_def newSession_def callback_defs)

text \<open>
  Claim C4. When \<open>spawnPty\<close> throws, the factory does not throw: it returns the
  component, having called \<open>done\<close> once with the synthetic result (no exit code, the
  failure message in the scrollback text, every flag false), for which \<open>execute\<close>
  returns normally. The component is complete with no exit code, shows the message, and
  no later event changes the result or the state.
\<close>

theorem spawn_failure_is_a_result:
  assumes "spawnError p = Some msg"
  shows "done_calls (start h p) =
           [\<lparr> exitCode = None, scrollback = ''Failed to spawn PTY: '' @ msg,
               screenSnapshot = [], timedOut = False, dismissedByUser = False,
               scrollbackTruncated = False, abortedBySignal = False \<rparr>]
       \<and> (\<exists>res. executeOutcome (hd (done_calls (start h p))) = Inr res)
       \<and> v_finished (start h p)
       \<and> o_state (start h p) = Complete \<and> o_exitCode (start h p) = None
       \<and> o_writes (start h p) = [Write (''\<newline>Failed to spawn PTY: '' @ msg @ ''\<newline>'') None]
       \<and> (\<forall>evs. done_calls (run h evs (start h p)) = done_calls (start h p)
              \<and> o_state (run h evs (start h p)) = Complete)"
proof -
  note st = start_spawn_failure [OF assms, of h]
  have later: "\<forall>evs. done_calls (run h evs (start h p)) = done_calls (start h p)
              \<and> o_state (run h evs (start h p)) = Complete"
    using finished_run [OF sound_start st(2), of h] st(3) by simp
  have out: "\<exists>res. executeOutcome (hd (done_calls (start h p))) = Inr res"
    by (simp add: st(1) spawnFailed_def executeOutcome_def)
  show ?thesis
    using st later out by (simp add: spawnFailed_def)
qed

theorem spawn_failure_is_a_result_witness:
  "spawnError (exampleParams \<lparr> spawnError := Some ''ENOENT'' \<rparr>) = Some ''ENOENT''
   \<and> done_calls (start exampleHost (exampleParams \<lparr> spawnError := Some ''ENOENT'' \<rparr>)) =
           [\<lparr> exitCode = None, scrollback = ''Failed to spawn PTY: '' @ ''ENOENT'',
               screenSnapshot = [], timedOut = False, dismissedByUser = False,
               scrollbackTruncated = False, abortedBySignal = False \<rparr>]
   \<and> o_state (run exampleHost [XtermParse, Input ''q'']
         (start exampleHost (exampleParams \<lparr> spawnError := Some ''ENOENT'' \<rparr>))) = Complete"
proof -
  have sp: "spawnError (exampleParams \<lparr> spawnError := Some ''ENOENT'' \<rparr>) = Some ''ENOENT''"
    by simp
  from sp spawn_failure_is_a_result [OF sp, of exampleHost] show ?thesis
    by blast
qed

text \<open>What holds of the input handlers while the overlay is running.\<close>

lemma sound_running:
  assumes "sound s" and "o_state s = Running"
  shows "o_inputHandlers s" and "\<not> v_finished s"
  using assms unfolding sound_def by (cases "v_finished s"; simp)+

lemma sound_kills:
  assumes "sound s"
  shows "v_dismissedByUser s \<longrightarrow> \<not> v_pty s"
    and "o_inputHandlers s \<and> \<not> v_pty s \<longrightarrow> ''SIGKILL'' \<in> set (pty_kills s)"
proof -
  show "v_dismissedByUser s \<longrightarrow> \<not> v_pty s"
    using assms by (simp add: sound_def)
  have "o_inputHandlers s \<and> \<not> v_pty s \<longrightarrow> pty_kills s \<noteq> []"
    and "set (pty_kills s) \<subseteq> {''SIGKILL''}"
    using assms by (simp_all add: sound_def)
  then show "o_inputHandlers s \<and> \<not> v_pty s \<longrightarrow> ''SIGKILL'' \<in> set (pty_kills s)"
    by (cases "pty_kills s") auto
qed

lemma handleInput_escape:
  assumes "sound s" and "o_state s = Running" and "isEscape h d"
  shows "v_dismissedByUser (handleInput h d s) \<and> \<not> v_pty (handleInput h d s)
       \<and> pty_writes (handleInput h d s) = pty_writes s
       \<and> ''SIGKILL'' \<in> set (pty_kills (handleInput h d s))
       \<and> (v_pty s \<longrightarrow> pty_kills (handleInput h d s) = pty_kills s @ [''SIGKILL''])"
  using assms sound_running [OF assms(1,2)] sound_kills [OF assms(1)]
  by (auto simp: handleInput_def onDismiss_def killPty_def)

lemma handleInput_other:
  assumes "sound s" and "o_state s = Running" and "\<not> isEscape h d"
  shows "handleInput h d s = onInput d s
       \<and> (v_pty s \<longrightarrow> handleInput h d s = s \<lparr> pty_writes := pty_writes s @ [d] \<rparr>)
       \<and> (\<not> v_pty s \<longrightarrow> handleInput h d s = s)"
  using assms sound_running [OF assms(1,2)]
  by (simp add: handleInput_def onInput_def)

text \<open>
  Claim C6. In a state a session reaches, while the overlay is running: an escape key
  sets \<open>dismissedByUser\<close>, leaves the PTY handle cleared with SIGKILL sent to the child
  (sent by this key press when the handle was still there) and writes nothing to the
  PTY; any other key is handed unchanged to the input handler, which passes it to
  \<open>pty.write\<close> (and drops it once the handle is cleared by a kill). When the overlay is
  not running, every key leaves the state as it is.
\<close>

theorem input_routing:
  assumes "s = run h evs (start h p)"
  shows "(o_state s = Running \<and> isEscape h d \<longrightarrow>
            v_dismissedByUser (handleInput h d s) \<and> \<not> v_pty (handleInput h d s)
          \<and> pty_writes (handleInput h d s) = pty_writes s
          \<and> ''SIGKILL'' \<in> set (pty_kills (handleInput h d s))
          \<and> (v_pty s \<longrightarrow> pty_kills (handleInput h d s) = pty_kills s @ [''SIGKILL'']))
       \<and> (o_state s = Running \<and> \<not> isEscape h d \<longrightarrow>
            handleInput h d s = onInput d s
          \<and> (v_pty s \<longrightarrow> handleInput h d s = s \<lparr> pty_writes := pty_writes s @ [d] \<rparr>)
          \<and> (\<not> v_pty s \<longrightarrow> handleInput h d s = s))
       \<and> (o_state s \<noteq> Running \<longrightarrow> handleInput h d s = s)"
proof -
  have snd: "sound s"
    unfolding assms by (rule sound_reachable)
  have idle: "o_state s \<noteq> Running \<longrightarrow> handleInput h d s = s"
    by (simp add: handleInput_def)
  show ?thesis
    using handleInput_escape [OF snd, of h d] handleInput_other [OF snd, of h d] idle
    by blast
qed

theorem input_routing_witness:
  "o_state (run exampleHost [PtyData ''$ ''] (start exampleHost exampleParams)) = Running
   \<and> isEscape exampleHost [ESC] \<and> \<not> isEscape exampleHost ''a''
   \<and> v_pty (run exampleHost [PtyData ''$ ''] (start exampleHost exampleParams))
   \<and> v_dismissedByUser (handleInput exampleHost [ESC]
        (run exampleHost [PtyData ''$ ''] (start exampleHost exampleParams)))
   \<and> pty_kills (handleInput exampleHost [ESC]
        (run exampleHost [PtyData ''$ ''] (start exampleHost exampleParams)))
       = pty_kills (run exampleHost [PtyData ''$ ''] (start exampleHost exampleParams)) @ [''SIGKILL'']
   \<and> pty_writes (handleInput exampleHost [ESC]
        (run exampleHost [PtyData ''$ ''] (start exampleHost exampleParams)))
       = pty_writes (run exampleHost [PtyData ''$ ''] (start exampleHost exampleParams))
   \<and> handleInput exampleHost ''a'' (run exampleHost [PtyData ''$ ''] (start exampleHost exampleParams))
       = (run exampleHost [PtyData ''$ ''] (start exampleHost exampleParams))
           \<lparr> pty_writes := pty_writes (run exampleHost [PtyData ''$ '']
                (start exampleHost exampleParams)) @ [''a''] \<rparr>
   \<and> o_state (run exampleHost [PtyExit 0] (start exampleHost exampleParams)) \<noteq> Running
   \<and> handleInput exampleHost [ESC] (run exampleHost [PtyExit 0] (start exampleHost exampleParams))
       = run exampleHost [PtyExit 0] (start exampleHost exampleParams)"
proof -
  define s where "s = run exampleHost [PtyData ''$ ''] (start exampleHost exampleParams)"
  define t where "t = run exampleHost [PtyExit 0] (start exampleHost exampleParams)"
  have running: "o_state s = Running" and pty: "v_pty s"
    by (simp_all add: s_def run_Cons run_Nil start_def newSession_def exampleParams_def
        appendOutput_def)
  have esc: "isEscape exampleHost [ESC]" and other: "\<not> isEscape exampleHost ''a''"
    by (simp_all add: isEscape_def exampleHost_def ESC_def)
  have stopped: "o_state t \<noteq> Running"
    by (simp add: t_def run_Cons run_Nil start_def newSession_def exampleParams_def
        callback_defs)
  from running pty esc other stopped
    input_routing [OF s_def, of "[ESC]"] input_routing [OF s_def, of "''a''"]
    input_routing [OF t_def, of "[ESC]"]
  show ?thesis
    unfolding s_def [symmetric] t_def [symmetric] by blast
qed

text \<open>
  Claim C7 fails on the code: a session dismissed with the escape key, with no timeout,
  reports the exit code of the PTY's exit event, whatever it is, and not null.
\<close>

theorem dismiss_reports_exit_code:
  "\<forall>code. done_calls (run exampleHost [Input [ESC], PtyExit code, XtermParse]
             (start exampleHost exampleParams)) =
           [\<lparr> exitCode = Some code, scrollback = [], screenSnapshot = [], timedOut = False,
               dismissedByUser = True, scrollbackTruncated = False, abortedBySignal = False \<rparr>]"
proof
  fix code
  define s1 where "s1 = step exampleHost (start exampleHost exampleParams) (Input [ESC])"
  define s2 where "s2 = step exampleHost s1 (PtyExit code)"
  have esc: "isEscape exampleHost [ESC]"
    by (simp add: isEscape_def exampleHost_def ESC_def)
  have s1: "s1 = (start exampleHost exampleParams)
              \<lparr> v_dismissedByUser := True, pty_kills := [''SIGKILL''], v_pty := False \<rparr>"
    using esc by (simp add: s1_def start_def newSession_def exampleParams_def callback_defs)
  have buf: "o_buf s2 = \<lparr> baseY = 0, rows = 5, bufLines = replicate 5 [] \<rparr>"
    and q: "o_writes s2 = [Write [] (Some \<lparr> cl_exitCode = Some code, cl_abortedBySignal = False \<rparr>)]"
    and fl: "\<not> v_finished s2" "v_dismissedByUser s2" "\<not> v_timedOut s2" "done_calls s2 = []"
    by (simp_all add: s2_def s1 start_def newSession_def exampleParams_def exampleHost_def
        callback_defs)
  have sb: "getScrollback \<lparr> baseY = 0, rows = 5, bufLines = replicate 5 [] \<rparr> SCROLLBACK_MAX_LINES
              = \<lparr> sb_text = [], sb_truncated = False \<rparr>"
    by code_simp
  have sn: "getSnapshot \<lparr> baseY = 0, rows = 5, bufLines = replicate 5 [] \<rparr>
              SCREEN_SNAPSHOT_MAX_LINES = []"
    by code_simp
  have tt: "truncateTail [] ml mb = []" for ml mb
    by (cases ml; cases "the ml") (simp_all add: truncateTail_def)
  have "done_calls (step exampleHost s2 XtermParse) =
           [\<lparr> exitCode = Some code, scrollback = [], screenSnapshot = [], timedOut = False,
               dismissedByUser = True, scrollbackTruncated = False, abortedBySignal = False \<rparr>]"
    using buf q fl by (simp add: parseNext_def flushCallback_def finish_eq Let_def sb sn tt)
  then show "done_calls (run exampleHost [Input [ESC], PtyExit code, XtermParse]
             (start exampleHost exampleParams)) =
           [\<lparr> exitCode = Some code, scrollback = [], screenSnapshot = [], timedOut = False,
               dismissedByUser = True, scrollbackTruncated = False, abortedBySignal = False \<rparr>]"
    by (simp only: run_Cons run_Nil s1_def s2_def)
qed

section \<open>Facts about tail truncation and the bounds of a capture\<close>

lemma takeBytes_prefix: "prefix (takeBytes n cs) cs"
  by (induction n cs rule: takeBytes.induct) auto

lemma takeBytes_bytes: "byteLength (takeBytes n cs) \<le> n"
  by (induction n cs rule: takeBytes.induct) (auto simp: byteLength_def)

lemma takeLines_prefix: "prefix (takeLines n cs) cs"
  by (induction n cs rule: takeLines.induct) auto

lemma byteLength_rev: "byteLength (rev cs) = byteLength cs"
  by (simp add: byteLength_def rev_map [symmetric])

lemma truncateTail_suffix: "suffix (truncateTail content ml mb) content"
proof -
  let ?kept = "case ml of None \<Rightarrow> rev content | Some n \<Rightarrow> takeLines n (rev content)"
  have "prefix ?kept (rev content)"
    by (cases ml) (simp_all add: takeLines_prefix)
  with takeBytes_prefix [of mb ?kept] have "prefix (takeBytes mb ?kept) (rev content)"
    by (rule prefix_order.trans)
  then have "suffix (rev (takeBytes mb ?kept)) (rev (rev content))"
    by (simp only: suffix_to_prefix rev_rev_ident)
  then show ?thesis
    by (simp add: truncateTail_def)
qed

lemma truncateTail_bytes: "byteLength (truncateTail content ml mb) \<le> mb"
  by (simp add: truncateTail_def byteLength_rev takeBytes_bytes)

lemma snapshotWindow_recent:
  "0 < m \<Longrightarrow> snapshotWindow b m
     = [max 1 (baseY b + rows b) - nat m ..< max 1 (baseY b + rows b)]"
proof -
  assume m: "0 < m"
  have hi: "Suc (nat (max 0 (int (baseY b) + int (rows b) - 1))) = max 1 (baseY b + rows b)"
    by (simp add: max_def) linarith
  have lo: "nat (max 0 (int (nat (max 0 (int (baseY b) + int (rows b) - 1))) - m + 1))
              = max 1 (baseY b + rows b) - nat m"
    using m by (simp add: max_def) linarith
  show ?thesis
    by (simp only: snapshotWindow_def hi lo)
qed

lemma flushCallback_result:
  assumes "\<not> v_finished s"
  shows "done_calls (flushCallback h cb s) = done_calls s @
     [\<lparr> exitCode = cl_exitCode cb,
        scrollback = truncateTail (sb_text (getScrollback (o_buf s) SCROLLBACK_MAX_LINES)) None
                       (CAPTURE_MAX_BYTES h),
        screenSnapshot = truncateTail (getSnapshot (o_buf s) SCREEN_SNAPSHOT_MAX_LINES)
                       (Some (nat SCREEN_SNAPSHOT_MAX_LINES)) SCREEN_SNAPSHOT_MAX_BYTES,
        timedOut = v_timedOut s,
        dismissedByUser = v_dismissedByUser s,
        scrollbackTruncated = sb_truncated (getScrollback (o_buf s) SCROLLBACK_MAX_LINES),
        abortedBySignal = cl_abortedBySignal cb \<rparr>]"
  using assms by (simp add: flushCallback_def finish_eq Let_def)

text \<open>
  Claim C8. The result the flush callback emits has \<open>scrollbackTruncated\<close> set exactly
  when the buffer has more than 2000 rows (\<open>baseY + rows\<close>). Its snapshot is a tail of
  the text \<open>getSnapshot\<close> gives for 200 lines, of at most 40 * 1024 bytes; that text is
  made of at most 200 lines, which are the last 200 rows of the buffer with the blank
  lines stripped at both ends.
\<close>

theorem capture_bounds:
  assumes "\<not> v_finished s"
  shows "\<exists>r. done_calls (flushCallback h cb s) = done_calls s @ [r]
       \<and> (scrollbackTruncated r \<longleftrightarrow> 2000 < baseY (o_buf s) + rows (o_buf s))
       \<and> suffix (screenSnapshot r) (getSnapshot (o_buf s) 200)
       \<and> byteLength (screenSnapshot r) \<le> 40 * 1024
       \<and> (\<exists>ls. getSnapshot (o_buf s) 200 = join ''\<newline>'' ls \<and> length ls \<le> 200
             \<and> blankStripped (map (\<lambda>y. trimEnd (translated (o_buf s) y))
                  [max 1 (baseY (o_buf s) + rows (o_buf s)) - 200
                     ..< max 1 (baseY (o_buf s) + rows (o_buf s))]) ls)"
proof -
  let ?b = "o_buf s"
  let ?r = "\<lparr> exitCode = cl_exitCode cb,
        scrollback = truncateTail (sb_text (getScrollback ?b SCROLLBACK_MAX_LINES)) None
                       (CAPTURE_MAX_BYTES h),
        screenSnapshot = truncateTail (getSnapshot ?b SCREEN_SNAPSHOT_MAX_LINES)
                       (Some (nat SCREEN_SNAPSHOT_MAX_LINES)) SCREEN_SNAPSHOT_MAX_BYTES,
        timedOut = v_timedOut s,
        dismissedByUser = v_dismissedByUser s,
        scrollbackTruncated = sb_truncated (getScrollback ?b SCROLLBACK_MAX_LINES),
        abortedBySignal = cl_abortedBySignal cb \<rparr>"
  have r: "done_calls (flushCallback h cb s) = done_calls s @ [?r]"
    using assms by (rule flushCallback_result)
  have tr: "scrollbackTruncated ?r \<longleftrightarrow> 2000 < baseY ?b + rows ?b"
    by (simp add: getScrollback_def SCROLLBACK_MAX_LINES_def Let_def)
  have sf: "suffix (screenSnapshot ?r) (getSnapshot ?b 200)"
    using truncateTail_suffix [of "getSnapshot ?b 200" "Some (nat 200)" SCREEN_SNAPSHOT_MAX_BYTES]
    by (simp add: SCREEN_SNAPSHOT_MAX_LINES_def)
  have bl: "byteLength (screenSnapshot ?r) \<le> 40 * 1024"
    using truncateTail_bytes [of "getSnapshot ?b 200" "Some (nat 200)" SCREEN_SNAPSHOT_MAX_BYTES]
    by (simp add: SCREEN_SNAPSHOT_MAX_LINES_def SCREEN_SNAPSHOT_MAX_BYTES_def)
  have pos: "(0::int) < 200"
    by simp
  have win: "snapshotWindow ?b 200
     = [max 1 (baseY ?b + rows ?b) - 200 ..< max 1 (baseY ?b + rows ?b)]"
    using snapshotWindow_recent [OF pos, of ?b] by simp
  obtain ls where ls: "getSnapshot ?b 200 = join ''\<newline>'' ls"
    and st: "blankStripped (map (\<lambda>y. trimEnd (translated ?b y)) (snapshotWindow ?b 200)) ls"
    using getSnapshot_stripped [OF pos, of ?b] by blast
  from st obtain pre post
    where "map (\<lambda>y. trimEnd (translated ?b y)) (snapshotWindow ?b 200) = pre @ ls @ post"
    unfolding blankStripped_def by blast
  then have "length (snapshotWindow ?b 200) = length pre + length ls + length post"
    by (metis length_append length_map add.assoc)
  moreover have "length (snapshotWindow ?b 200) \<le> 200"
    by (simp add: win)
  ultimately have len: "length ls \<le> 200"
    by linarith
  have "\<exists>ls. getSnapshot ?b 200 = join ''\<newline>'' ls \<and> length ls \<le> 200
             \<and> blankStripped (map (\<lambda>y. trimEnd (translated ?b y))
                  [max 1 (baseY ?b + rows ?b) - 200 ..< max 1 (baseY ?b + rows ?b)]) ls"
    using ls len st unfolding win by blast
  with r tr sf bl show ?thesis
    by blast
qed

theorem capture_bounds_witness:
  "\<not> v_finished fullSession
   \<and> (\<exists>r. done_calls (flushCallback exampleHost \<lparr> cl_exitCode = Some 0, cl_abortedBySignal = False \<rparr>
              fullSession) = done_calls fullSession @ [r]
        \<and> scrollbackTruncated r
        \<and> byteLength (screenSnapshot r) \<le> 40 * 1024)"
proof -
  have nf: "\<not> v_finished fullSession"
    by (simp add: fullSession_def start_def newSession_def exampleParams_def)
  have "2000 < baseY (o_buf fullSession) + rows (o_buf fullSession)"
    by (simp add: fullSession_def)
  with nf capture_bounds [OF nf, of exampleHost "\<lparr> cl_exitCode = Some 0, cl_abortedBySignal = False \<rparr>"]
  show ?thesis
    by blast
qed

section \<open>The flush barrier\<close>

lemma feedAll_Nil: "feedAll h b [] = b"
  by (simp add: feedAll_def)

lemma feedAll_Cons: "feedAll h b (d # ds) = feedAll h (if d = [] then b else feed h b d) ds"
  by (simp add: feedAll_def)

lemma parseNext_data:
  assumes "o_writes s = Write d None # q"
  shows "parseNext h s = s \<lparr> o_writes := q, o_buf := (if d = [] then o_buf s else feed h (o_buf s) d) \<rparr>"
  using assms by (simp add: parseNext_def)

text \<open>Writes without a callback are parsed one by one into the buffer; nothing else
  of the state changes.\<close>

lemma drain_data:
  assumes "o_writes s = q @ rest" and "\<forall>w \<in> set q. writeCallback w = None"
  shows "run h (replicate (length q) XtermParse) s
           = s \<lparr> o_writes := rest, o_buf := feedAll h (o_buf s) (map writeData q) \<rparr>"
  using assms
proof (induction q arbitrary: s)
  case Nil
  then show ?case
    by (simp add: run_Nil feedAll_Nil)
next
  case (Cons w q)
  obtain d where w: "w = Write d None"
    using Cons.prems(2) by (cases w) simp
  let ?s1 = "s \<lparr> o_writes := q @ rest, o_buf := (if d = [] then o_buf s else feed h (o_buf s) d) \<rparr>"
  have p: "parseNext h s = ?s1"
    using Cons.prems(1) w by (simp add: parseNext_data)
  have "run h (replicate (length q) XtermParse) ?s1
          = ?s1 \<lparr> o_writes := rest, o_buf := feedAll h (o_buf ?s1) (map writeData q) \<rparr>"
    using Cons.prems(2) by (intro Cons.IH) simp_all
  then show ?case
    by (simp add: run_Cons p w feedAll_Cons)
qed

lemma capture_only_in_callback:
  "captures (step h t e) \<noteq> captures t \<Longrightarrow>
     e = XtermParse \<and> (\<exists>d cb q. o_writes t = Write d (Some cb) # q)"
proof (cases e)
  case XtermParse
  assume ch: "captures (step h t e) \<noteq> captures t"
  show ?thesis
  proof (cases "o_writes t")
    case Nil
    with ch XtermParse show ?thesis
      by (simp add: parseNext_def)
  next
    case (Cons w q)
    obtain d c where w: "w = Write d c"
      by (cases w) simp
    show ?thesis
    proof (cases c)
      case None
      with ch XtermParse Cons w show ?thesis
        by (simp add: parseNext_def)
    next
      case (Some cb)
      with XtermParse Cons w show ?thesis
        by simp
    qed
  qed
qed (auto simp: callback_defs split: if_splits)

lemma hasCallback_iff: "\<not> hasCallback s \<longleftrightarrow> (\<forall>w \<in> set (o_writes s). writeCallback w = None)"
  by (simp add: hasCallback_def list_ex_iff)

text \<open>The scenario of claim C2, from any state where no exit has been handled: a chunk
  arrives, the exit arrives, and the emulator parses \<open>n\<close> writes.\<close>

lemma data_exit_parse:
  assumes snd: "sound s" and nf: "\<not> v_finished s" and nc: "\<not> hasCallback s"
    and n: "n \<le> Suc (length (o_writes s))"
  shows "run h (PtyData chunk # PtyExit code # replicate n XtermParse) s
           = (onExit code (appendOutput chunk s))
               \<lparr> o_writes := drop n (o_writes s @ [Write chunk None])
                    @ [Write [] (Some \<lparr> cl_exitCode = (if v_timedOut s then None else Some code),
                         cl_abortedBySignal = (e_aborted s = Some True
                            \<and> \<not> v_dismissedByUser s \<and> \<not> v_timedOut s) \<rparr>)],
                 o_buf := feedAll h (o_buf s)
                    (map writeData (take n (o_writes s @ [Write chunk None]))) \<rparr>"
proof -
  let ?cb = "\<lparr> cl_exitCode = (if v_timedOut s then None else Some code),
               cl_abortedBySignal = (e_aborted s = Some True
                  \<and> \<not> v_dismissedByUser s \<and> \<not> v_timedOut s) \<rparr>"
  let ?q = "o_writes s @ [Write chunk None]"
  let ?s2 = "onExit code (appendOutput chunk s)"
  have sub: "e_onData s" "e_onExit s"
    using sound_wired [OF snd nf] by simp_all
  have s2: "step h (step h s (PtyData chunk)) (PtyExit code) = ?s2"
    using sub by (simp add: appendOutput_def)
  have "o_writes ?s2 = ?q @ [Write [] (Some ?cb)]"
    by (simp add: callback_defs)
  then have q2: "o_writes ?s2 = take n ?q @ (drop n ?q @ [Write [] (Some ?cb)])"
    by (simp only: append_assoc [symmetric] append_take_drop_id)
  have b2: "o_buf ?s2 = o_buf s"
    by (simp add: callback_defs)
  have none: "\<forall>w \<in> set (take n ?q). writeCallback w = None"
    using nc by (auto simp: hasCallback_iff dest!: in_set_takeD)
  have len: "length (take n ?q) = n"
    using n by simp
  have "run h (replicate (length (take n ?q)) XtermParse) ?s2
          = ?s2 \<lparr> o_writes := drop n ?q @ [Write [] (Some ?cb)],
                  o_buf := feedAll h (o_buf ?s2) (map writeData (take n ?q)) \<rparr>"
    using q2 none by (rule drain_data)
  then show ?thesis
    by (simp only: len b2 run_Cons s2)
qed

lemma run_replicate_Suc:
  "run h (xs @ replicate (Suc n) e) s = step h (run h (xs @ replicate n e) s) e"
proof -
  have "xs @ replicate (Suc n) e = (xs @ replicate n e) @ [e]"
    by (simp add: replicate_append_same)
  then show ?thesis
    by (simp only: run_snoc)
qed

lemma run_replicate_Suc2:
  "run h (a # b # replicate (Suc n) e) s = step h (run h (a # b # replicate n e) s) e"
  using run_replicate_Suc [of h "[a, b]" n e s] by simp

text \<open>
  Claim C2. The buffer is read for a capture only when the emulator runs a flush
  callback that has reached the head of its queue of writes, that is after every write
  made before the flush is parsed. So, from a state a session reaches in which no exit
  has been handled: when a chunk arrives and the exit right after it, nothing is read
  or emitted while the emulator still parses the writes before the flush; and when the
  flush callback runs, the scrollback text and the snapshot text of the one result are
  taken from the buffer that has parsed all earlier chunks and this last chunk.
\<close>

theorem capture_after_flush:
  assumes "s = run h evs (start h p)" and "\<not> v_finished s" and "\<not> hasCallback s"
  shows "(\<forall>t e. captures (step h t e) \<noteq> captures t \<longrightarrow>
            e = XtermParse \<and> (\<exists>d cb q. o_writes t = Write d (Some cb) # q))
       \<and> (\<forall>n \<le> Suc (length (o_writes s)).
            done_calls (run h (PtyData chunk # PtyExit code # replicate n XtermParse) s) = []
          \<and> captures (run h (PtyData chunk # PtyExit code # replicate n XtermParse) s) = 0)
       \<and> (\<exists>r. done_calls (run h (PtyData chunk # PtyExit code
                     # replicate (Suc (Suc (length (o_writes s)))) XtermParse) s) = [r]
             \<and> scrollback r = truncateTail (sb_text (getScrollback
                   (feedAll h (o_buf s) (map writeData (o_writes s) @ [chunk]))
                   SCROLLBACK_MAX_LINES)) None (CAPTURE_MAX_BYTES h)
             \<and> screenSnapshot r = truncateTail (getSnapshot
                   (feedAll h (o_buf s) (map writeData (o_writes s) @ [chunk]))
                   SCREEN_SNAPSHOT_MAX_LINES)
                   (Some (nat SCREEN_SNAPSHOT_MAX_LINES)) SCREEN_SNAPSHOT_MAX_BYTES)"
proof (intro conjI allI impI)
  fix t e
  assume "captures (step h t e) \<noteq> captures t"
  then show "e = XtermParse" and "\<exists>d cb q. o_writes t = Write d (Some cb) # q"
    using capture_only_in_callback [of h t e] by simp_all
next
  have snd: "sound s"
    unfolding assms(1) by (rule sound_reachable)
  have none: "done_calls s = []" "captures s = 0"
    using snd assms(2) by (simp_all add: sound_def)
  let ?cb = "\<lparr> cl_exitCode = (if v_timedOut s then None else Some code),
               cl_abortedBySignal = (e_aborted s = Some True
                  \<and> \<not> v_dismissedByUser s \<and> \<not> v_timedOut s) \<rparr>"
  let ?q = "o_writes s @ [Write chunk None]"
  let ?s2 = "onExit code (appendOutput chunk s)"
  have s2: "done_calls ?s2 = []" "captures ?s2 = 0" "\<not> v_finished ?s2"
    "v_timedOut ?s2 = v_timedOut s" "v_dismissedByUser ?s2 = v_dismissedByUser s"
    using none assms(2) by (simp_all add: callback_defs)
  {
    fix n
    assume n: "n \<le> Suc (length (o_writes s))"
    note st = data_exit_parse [OF snd assms(2,3) n, of h chunk code]
    show "done_calls (run h (PtyData chunk # PtyExit code # replicate n XtermParse) s) = []"
      by (simp add: st s2)
    show "captures (run h (PtyData chunk # PtyExit code # replicate n XtermParse) s) = 0"
      by (simp add: st s2)
  }
  let ?n = "Suc (length (o_writes s))"
  let ?B = "feedAll h (o_buf s) (map writeData (o_writes s) @ [chunk])"
  let ?s3 = "?s2 \<lparr> o_writes := [Write [] (Some ?cb)], o_buf := ?B \<rparr>"
  let ?s4 = "?s2 \<lparr> o_writes := [], o_buf := ?B \<rparr>"
  have "run h (PtyData chunk # PtyExit code # replicate ?n XtermParse) s = ?s3"
    using data_exit_parse [OF snd assms(2,3) le_refl, of h chunk code] by simp
  then have "run h (PtyData chunk # PtyExit code # replicate (Suc ?n) XtermParse) s
               = step h ?s3 XtermParse"
    by (simp only: run_replicate_Suc2)
  also have "\<dots> = flushCallback h ?cb ?s4"
    by (simp add: parseNext_def)
  finally have fin: "run h (PtyData chunk # PtyExit code # replicate (Suc ?n) XtermParse) s
               = flushCallback h ?cb ?s4" .
  have nf3: "\<not> v_finished ?s4"
    using s2 by simp
  show "\<exists>r. done_calls (run h (PtyData chunk # PtyExit code
                     # replicate (Suc (Suc (length (o_writes s)))) XtermParse) s) = [r]
             \<and> scrollback r = truncateTail (sb_text (getScrollback ?B
                   SCROLLBACK_MAX_LINES)) None (CAPTURE_MAX_BYTES h)
             \<and> screenSnapshot r = truncateTail (getSnapshot ?B
                   SCREEN_SNAPSHOT_MAX_LINES)
                   (Some (nat SCREEN_SNAPSHOT_MAX_LINES)) SCREEN_SNAPSHOT_MAX_BYTES"
    unfolding fin flushCallback_result [OF nf3] using s2 by simp
qed

lemma takeBytes_all: "byteLength cs \<le> n \<Longrightarrow> takeBytes n cs = cs"
  by (induction n cs rule: takeBytes.induct) (auto simp: byteLength_def)

lemma takeLines_all:
  "length (filter (\<lambda>c. c = CHR ''\<newline>'') cs) < n \<Longrightarrow> takeLines n cs = cs"
  by (induction n cs rule: takeLines.induct) auto

lemma truncateTail_fits:
  assumes "byteLength content \<le> mb"
    and "case ml of None \<Rightarrow> True
         | Some n \<Rightarrow> length (filter (\<lambda>c. c = CHR ''\<newline>'') content) < n"
  shows "truncateTail content ml mb = content"
proof (cases ml)
  case None
  with assms(1) show ?thesis
    by (simp add: truncateTail_def takeBytes_all byteLength_rev)
next
  case (Some n)
  with assms(2) have "length (filter (\<lambda>c. c = CHR ''\<newline>'') (rev content)) < n"
    by (simp flip: rev_filter)
  then have "takeLines n (rev content) = rev content"
    by (rule takeLines_all)
  with Some assms(1) show ?thesis
    by (simp add: truncateTail_def takeBytes_all byteLength_rev)
qed

theorem capture_after_flush_witness:
  "\<not> v_finished (run exampleHost [] (start exampleHost exampleParams))
   \<and> \<not> hasCallback (run exampleHost [] (start exampleHost exampleParams))
   \<and> (\<exists>r. done_calls (run exampleHost (PtyData ''root'' # PtyExit 0
             # replicate (Suc (Suc (length (o_writes
                 (run exampleHost [] (start exampleHost exampleParams)))))) XtermParse)
             (run exampleHost [] (start exampleHost exampleParams))) = [r]
         \<and> scrollback r = ''root'' \<and> screenSnapshot r = ''root'')"
proof -
  define s where "s = run exampleHost [] (start exampleHost exampleParams)"
  have s: "s = start exampleHost exampleParams"
    by (simp add: s_def run_Nil)
  have nf: "\<not> v_finished s" and nc: "\<not> hasCallback s"
    by (simp_all add: s start_def newSession_def exampleParams_def hasCallback_def)
  have r5: "replicate 5 x = [x, x, x, x, x]" for x :: string
    by (simp add: numeral_eq_Suc)
  have buf: "feedAll exampleHost (o_buf s) (map writeData (o_writes s) @ [''root''])
               = \<lparr> baseY = 0, rows = 5, bufLines = [''root'', [], [], [], []] \<rparr>"
    by (simp add: s start_def newSession_def exampleParams_def exampleHost_def feedAll_def r5)
  have sb: "sb_text (getScrollback
              \<lparr> baseY = 0, rows = 5, bufLines = [''root'', [], [], [], []] \<rparr>
              SCROLLBACK_MAX_LINES) = ''root''"
    by code_simp
  have sn: "getSnapshot \<lparr> baseY = 0, rows = 5, bufLines = [''root'', [], [], [], []] \<rparr>
              SCREEN_SNAPSHOT_MAX_LINES = ''root''"
    by code_simp
  have t1: "truncateTail ''root'' None (CAPTURE_MAX_BYTES exampleHost) = ''root''"
    by (rule truncateTail_fits)
       (simp_all add: byteLength_def charBytes_def CAPTURE_MAX_BYTES_def exampleHost_def)
  have t2: "truncateTail ''root'' (Some (nat SCREEN_SNAPSHOT_MAX_LINES)) SCREEN_SNAPSHOT_MAX_BYTES
              = ''root''"
    by (rule truncateTail_fits)
       (simp_all add: byteLength_def charBytes_def SCREEN_SNAPSHOT_MAX_BYTES_def
          SCREEN_SNAPSHOT_MAX_LINES_def)
  note th = capture_after_flush [OF s_def nf nc, of "''root''" 0, THEN conjunct2, THEN conjunct2]
  have ex: "\<exists>r. done_calls (run exampleHost (PtyData ''root'' # PtyExit 0
             # replicate (Suc (Suc (length (o_writes s)))) XtermParse) s) = [r]
         \<and> scrollback r = ''root'' \<and> screenSnapshot r = ''root''"
    using th unfolding buf sb sn t1 t2 .
  from nf nc ex show ?thesis
    unfolding s_def by (intro conjI)
qed

section \<open>Where closures and results come from\<close>

lemma onExit_exitClosure:
  "onExit code s = flush (exitClosure code s)
     (setComplete (if v_timedOut s then None else Some code) (v_timedOut s) (v_dismissedByUser s) s)"
  by (simp add: onExit_def exitClosure_def Let_def)

lemma callbacks_append:
  "List.map_filter writeCallback (xs @ ys)
     = List.map_filter writeCallback xs @ List.map_filter writeCallback ys"
  by (simp add: List.map_filter_def)

lemma callbacks_step:
  "set (callbacks (step h s e)) \<subseteq> set (callbacks s)
     \<union> (case e of PtyExit code \<Rightarrow> if e_onExit s then {exitClosure code s} else {} | _ \<Rightarrow> {})"
proof (cases e)
  case XtermParse
  have "set (List.map_filter writeCallback (tl (o_writes s)))
          \<subseteq> set (List.map_filter writeCallback (o_writes s))"
    by (cases "o_writes s") (auto simp: List.map_filter_def)
  with XtermParse show ?thesis
    by (simp add: callbacks_def o_writes_parseNext)
next
  case (PtyExit code)
  then show ?thesis
    by (auto simp: callbacks_def onExit_exitClosure flush_def setComplete_def
        callbacks_append map_filter_simps)
qed (auto simp: callbacks_def callback_defs callbacks_append map_filter_simps)

lemma results_step:
  assumes "r \<in> set (done_calls (step h s e))"
  shows "r \<in> set (done_calls s)
       \<or> (\<exists>cb \<in> set (callbacks s). exitCode r = cl_exitCode cb
             \<and> abortedBySignal r = cl_abortedBySignal cb
             \<and> timedOut r = v_timedOut s \<and> dismissedByUser r = v_dismissedByUser s)"
proof (cases e)
  case XtermParse
  show ?thesis
  proof (cases "o_writes s")
    case Nil
    with assms XtermParse show ?thesis
      by (simp add: parseNext_def)
  next
    case (Cons w q)
    obtain d c where w: "w = Write d c"
      by (cases w) simp
    show ?thesis
    proof (cases c)
      case None
      with assms XtermParse Cons w show ?thesis
        by (simp add: parseNext_def)
    next
      case (Some cb)
      let ?s' = "s \<lparr> o_writes := q,
                      o_buf := (if d = [] then o_buf s else feed h (o_buf s) d) \<rparr>"
      have cb: "cb \<in> set (callbacks s)"
        by (simp add: callbacks_def Cons w Some map_filter_simps)
      have st: "step h s e = flushCallback h cb ?s'"
        by (simp add: XtermParse parseNext_def Cons w Some)
      show ?thesis
      proof (cases "v_finished s")
        case True
        then have "done_calls (flushCallback h cb ?s') = done_calls s"
          by (simp add: flushCallback_def)
        with assms st show ?thesis
          by simp
      next
        case False
        then have nf: "\<not> v_finished ?s'"
          by simp
        from assms have "r \<in> set (done_calls (flushCallback h cb ?s'))"
          by (simp only: st)
        then have "r \<in> set (done_calls ?s') \<or> (exitCode r = cl_exitCode cb
             \<and> abortedBySignal r = cl_abortedBySignal cb
             \<and> timedOut r = v_timedOut ?s' \<and> dismissedByUser r = v_dismissedByUser ?s')"
          unfolding flushCallback_result [OF nf] by auto
        with cb show ?thesis
          by auto
      qed
    qed
  qed
qed (use assms in \<open>auto simp: callback_defs split: if_splits\<close>)

lemma v_timedOut_step: "v_timedOut s \<Longrightarrow> v_timedOut (step h s e)"
  by (cases e) (auto simp: callback_defs split: list.splits option.splits)

section \<open>The timeout\<close>

lemma timedOutState_step:
  assumes "timedOutState s"
  shows "timedOutState (step h s e)"
proof -
  have t: "v_timedOut s"
    and cbs: "\<forall>cb \<in> set (callbacks s). cl_exitCode cb = None"
    and rs: "\<forall>r \<in> set (done_calls s). exitCode r = None \<and> timedOut r"
    using assms by (simp_all add: timedOutState_def list_all_iff)
  have "cl_exitCode cb = None" if "cb \<in> set (callbacks (step h s e))" for cb
  proof -
    from that callbacks_step [of h s e]
    have "cb \<in> set (callbacks s)
        \<or> (\<exists>code. e = PtyExit code \<and> cb = exitClosure code s)"
      by (cases e) (auto split: if_splits)
    with cbs t show ?thesis
      by (auto simp: exitClosure_def)
  qed
  moreover have "exitCode r = None \<and> timedOut r" if "r \<in> set (done_calls (step h s e))" for r
    using results_step [OF that] rs cbs t by auto
  ultimately show ?thesis
    using v_timedOut_step [OF t, of h e] by (simp add: timedOutState_def list_all_iff)
qed

lemma timedOutState_run: "timedOutState s \<Longrightarrow> timedOutState (run h evs s)"
  by (induction evs rule: rev_induct) (simp_all add: run_Nil run_snoc timedOutState_step)

lemma callbacks_empty: "\<not> hasCallback s \<Longrightarrow> callbacks s = []"
  by (auto simp: hasCallback_def callbacks_def List.map_filter_def list_ex_iff filter_empty_conv)

lemma timer_fires:
  assumes "sound s" and "\<not> v_finished s" and "e_timer s" and "\<not> hasCallback s"
  shows "timedOutState (step h s TimerFires)" and "\<not> v_finished (step h s TimerFires)"
    and "o_writes (step h s TimerFires) = o_writes s"
proof -
  have none: "done_calls s = []"
    using assms(1,2) by (rule sound_not_done)
  have cb: "callbacks s = []"
    using assms(4) by (rule callbacks_empty)
  show "timedOutState (step h s TimerFires)"
    using assms(2,3) none cb
    by (simp add: timedOutState_def callbacks_def onTimeout_def killPty_def)
  show "\<not> v_finished (step h s TimerFires)"
    using assms(2,3) by (simp add: onTimeout_def killPty_def)
  show "o_writes (step h s TimerFires) = o_writes s"
    using assms(2,3) by (simp add: onTimeout_def killPty_def)
qed

text \<open>
  Claim C3. Take a state a session reaches in which the timer is armed, the session is
  not finished and no exit has been handled, and let the timer fire. Whatever happens
  afterwards, every result that is emitted has no exit code and has \<open>timedOut\<close> set.
  And a result is emitted: when the killed child's exit arrives, with whatever exit
  code, and the emulator has worked off its queue, there is exactly one result, and it
  has no exit code and \<open>timedOut\<close> set.
\<close>

theorem timeout_forces_null:
  assumes "s = run h pre (start h p)" and "\<not> v_finished s" and "e_timer s"
    and "\<not> hasCallback s"
  shows "(\<forall>post. list_all (\<lambda>r. exitCode r = None \<and> timedOut r)
            (done_calls (run h (TimerFires # post) s)))
       \<and> (\<forall>code. \<exists>r. done_calls (run h (TimerFires # PtyExit code
                 # replicate (Suc (length (o_writes s))) XtermParse) s) = [r]
             \<and> exitCode r = None \<and> timedOut r)"
proof (intro conjI allI)
  have snd: "sound s"
    unfolding assms(1) by (rule sound_reachable)
  note tf = timer_fires [OF snd assms(2,3,4), of h]
  fix post
  have "timedOutState (run h post (step h s TimerFires))"
    using tf(1) by (rule timedOutState_run)
  then show "list_all (\<lambda>r. exitCode r = None \<and> timedOut r)
            (done_calls (run h (TimerFires # post) s))"
    by (simp add: run_Cons timedOutState_def)
next
  fix code
  have snd: "sound s"
    unfolding assms(1) by (rule sound_reachable)
  note tf = timer_fires [OF snd assms(2,3,4), of h]
  let ?s1 = "step h s TimerFires"
  let ?evs = "PtyExit code # replicate (Suc (length (o_writes s))) XtermParse"
  have snd1: "sound ?s1"
    using snd by (rule sound_step)
  have "v_finished (run h (PtyExit code # replicate (Suc (length (o_writes ?s1))) XtermParse) ?s1)"
    using snd1 tf(2) by (rule exit_then_drain)
  then have fin: "v_finished (run h ?evs ?s1)"
    by (simp only: tf(3))
  have "sound (run h ?evs ?s1)"
    using snd1 by (rule sound_run)
  then have "length (done_calls (run h ?evs ?s1)) = 1"
    using fin by (rule sound_done)
  then obtain r where r: "done_calls (run h ?evs ?s1) = [r]"
    by (cases "done_calls (run h ?evs ?s1)") simp_all
  have "timedOutState (run h ?evs ?s1)"
    using tf(1) by (rule timedOutState_run)
  with r have "exitCode r = None \<and> timedOut r"
    by (simp add: timedOutState_def)
  with r show "\<exists>r. done_calls (run h (TimerFires # ?evs) s) = [r]
             \<and> exitCode r = None \<and> timedOut r"
    by (simp add: run_Cons)
qed

theorem timeout_forces_null_witness:
  "\<not> v_finished (run exampleHost [] (start exampleHost exampleParams))
   \<and> e_timer (run exampleHost [] (start exampleHost exampleParams))
   \<and> \<not> hasCallback (run exampleHost [] (start exampleHost exampleParams))
   \<and> (\<exists>r. done_calls (run exampleHost (TimerFires # PtyExit 137
             # replicate (Suc (length (o_writes
                 (run exampleHost [] (start exampleHost exampleParams))))) XtermParse)
             (run exampleHost [] (start exampleHost exampleParams))) = [r]
         \<and> exitCode r = None \<and> timedOut r)"
proof -
  define s where "s = run exampleHost [] (start exampleHost exampleParams)"
  have s: "s = start exampleHost exampleParams"
    by (simp add: s_def run_Nil)
  have nf: "\<not> v_finished s" and tm: "e_timer s" and nc: "\<not> hasCallback s"
    by (simp_all add: s start_def newSession_def exampleParams_def hasCallback_def)
  note th = timeout_forces_null [OF s_def nf tm nc, THEN conjunct2, rule_format, of 137]
  from nf tm nc th show ?thesis
    unfolding s_def by (intro conjI)
qed

section \<open>The abort signal\<close>

lemma exitedOnAbort_snoc: "exitedOnAbort h p evs \<Longrightarrow> exitedOnAbort h p (evs @ [e])"
proof -
  assume "exitedOnAbort h p evs"
  then obtain pre code post where "evs = pre @ PtyExit code # post"
    and st: "e_onExit (run h pre (start h p))" "e_aborted (run h pre (start h p)) = Some True"
      "\<not> v_dismissedByUser (run h pre (start h p))" "\<not> v_timedOut (run h pre (start h p))"
    unfolding exitedOnAbort_def by blast
  then have "evs @ [e] = pre @ PtyExit code # (post @ [e])"
    by simp
  with st show ?thesis
    unfolding exitedOnAbort_def by blast
qed

lemma hasCallback_callbacks: "hasCallback s \<longleftrightarrow> callbacks s \<noteq> []"
  by (auto simp: hasCallback_def callbacks_def List.map_filter_def list_ex_iff filter_empty_conv)

text \<open>Once an exit has been handled, the overlay is not running, so no key can dismiss.\<close>

lemma v_dismissedByUser_step:
  assumes "sound s" and "hasCallback s"
  shows "v_dismissedByUser (step h s e) = v_dismissedByUser s"
proof -
  have "o_state s \<noteq> Running"
    using assms by (simp add: sound_def)
  then show ?thesis
    by (cases e) (auto simp: callback_defs split: list.splits option.splits)
qed

lemma abortTraced_start: "abortTraced h p []"
  by (cases "spawnError p")
     (simp_all add: abortTraced_def run_Nil start_def newSession_def callbacks_def
        callback_defs spawnFailed_def map_filter_simps)

lemma abortTraced_snoc:
  assumes ih: "abortTraced h p evs"
  shows "abortTraced h p (evs @ [e])"
proof -
  let ?s = "run h evs (start h p)"
  have snd: "sound ?s"
    by (rule sound_reachable)
  have ih_cb: "exitedOnAbort h p evs \<and> \<not> v_dismissedByUser ?s"
    if "cb \<in> set (callbacks ?s)" "cl_abortedBySignal cb" for cb
    using ih that unfolding abortTraced_def by blast
  have ih_r: "exitedOnAbort h p evs \<and> \<not> dismissedByUser r"
    if "r \<in> set (done_calls ?s)" "abortedBySignal r" for r
    using ih that unfolding abortTraced_def by blast
  have new_cb: "exitedOnAbort h p (evs @ [e]) \<and> \<not> v_dismissedByUser (step h ?s e)"
    if mem: "cb \<in> set (callbacks (step h ?s e))" and ab: "cl_abortedBySignal cb" for cb
  proof -
    from mem callbacks_step [of h ?s e]
    consider (old) "cb \<in> set (callbacks ?s)"
      | (new) code where "e = PtyExit code" "e_onExit ?s" "cb = exitClosure code ?s"
      by (cases e) (auto split: if_splits)
    then show ?thesis
    proof cases
      case old
      then have "hasCallback ?s"
        by (auto simp: hasCallback_callbacks)
      with snd have "v_dismissedByUser (step h ?s e) = v_dismissedByUser ?s"
        by (rule v_dismissedByUser_step)
      with ih_cb [OF old ab] show ?thesis
        by (simp add: exitedOnAbort_snoc)
    next
      case new
      with ab have st: "e_aborted ?s = Some True" "\<not> v_dismissedByUser ?s" "\<not> v_timedOut ?s"
        by (simp_all add: exitClosure_def)
      have "evs @ [e] = evs @ PtyExit code # []"
        using new(1) by simp
      with new(2) st have "exitedOnAbort h p (evs @ [e])"
        unfolding exitedOnAbort_def by blast
      moreover have "\<not> v_dismissedByUser (step h ?s e)"
        using new(1,2) st(2) by (simp add: onExit_exitClosure flush_def setComplete_def)
      ultimately show ?thesis
        by simp
    qed
  qed
  have new_r: "exitedOnAbort h p (evs @ [e]) \<and> \<not> dismissedByUser r"
    if mem: "r \<in> set (done_calls (step h ?s e))" and ab: "abortedBySignal r" for r
  proof -
    from results_step [OF mem]
    consider (old) "r \<in> set (done_calls ?s)"
      | (new) cb where "cb \<in> set (callbacks ?s)" "abortedBySignal r = cl_abortedBySignal cb"
          "dismissedByUser r = v_dismissedByUser ?s"
      by blast
    then show ?thesis
    proof cases
      case old
      with ih_r [OF old ab] show ?thesis
        by (simp add: exitedOnAbort_snoc)
    next
      case new
      with ab ih_cb [of cb] show ?thesis
        by (simp add: exitedOnAbort_snoc)
    qed
  qed
  show ?thesis
    unfolding abortTraced_def run_snoc using new_cb new_r by blast
qed

lemma abortTraced: "abortTraced h p evs"
  by (induction evs rule: rev_induct) (simp_all add: abortTraced_start abortTraced_snoc)

text \<open>
  Claim C5. For every result a session emits: \<open>execute\<close> throws (and what it throws is
  \<open>ToolAbortError\<close>) if and only if the result's \<open>abortedBySignal\<close> is set; and that
  flag is set only if the exit of the PTY was handled at a moment when the signal had
  aborted and the session was neither dismissed nor timed out, and then the result does
  not say dismissed either.
\<close>

theorem abort_is_the_only_failure:
  assumes "r \<in> set (done_calls (run h evs (start h p)))"
  shows "((\<exists>f. executeOutcome r = Inl f) \<longleftrightarrow> abortedBySignal r)
       \<and> (executeOutcome r = Inl (ToolAbortError ''Interactive terminal aborted.'')
            \<longleftrightarrow> abortedBySignal r)
       \<and> (abortedBySignal r \<longrightarrow> exitedOnAbort h p evs \<and> \<not> dismissedByUser r)"
proof -
  have "abortedBySignal r \<longrightarrow> exitedOnAbort h p evs \<and> \<not> dismissedByUser r"
    using abortTraced [of h p evs] assms unfolding abortTraced_def by blast
  then show ?thesis
    by (simp add: executeOutcome_def)
qed

theorem abort_is_the_only_failure_witness:
  "\<lparr> exitCode = Some 0, scrollback = [], screenSnapshot = [], timedOut = False,
      dismissedByUser = False, scrollbackTruncated = False, abortedBySignal = True \<rparr>
     \<in> set (done_calls (run exampleHost [Abort, PtyExit 0, XtermParse]
              (start exampleHost exampleParams)))
   \<and> executeOutcome
        \<lparr> exitCode = Some 0, scrollback = [], screenSnapshot = [], timedOut = False,
          dismissedByUser = False, scrollbackTruncated = False, abortedBySignal = True \<rparr>
       = Inl (ToolAbortError ''Interactive terminal aborted.'')
   \<and> exitedOnAbort exampleHost exampleParams [Abort, PtyExit 0, XtermParse]"
proof -
  let ?R = "\<lparr> exitCode = Some 0, scrollback = [], screenSnapshot = [], timedOut = False,
      dismissedByUser = False, scrollbackTruncated = False, abortedBySignal = True \<rparr>"
  define s1 where "s1 = step exampleHost (start exampleHost exampleParams) Abort"
  define s2 where "s2 = step exampleHost s1 (PtyExit 0)"
  have s1: "s1 = (start exampleHost exampleParams)
              \<lparr> e_aborted := Some True, e_abortListener := False,
                pty_kills := [''SIGKILL''], v_pty := False \<rparr>"
    by (simp add: s1_def start_def newSession_def exampleParams_def callback_defs)
  have buf: "o_buf s2 = \<lparr> baseY = 0, rows = 5, bufLines = replicate 5 [] \<rparr>"
    and q: "o_writes s2 = [Write [] (Some \<lparr> cl_exitCode = Some 0, cl_abortedBySignal = True \<rparr>)]"
    and fl: "\<not> v_finished s2" "\<not> v_dismissedByUser s2" "\<not> v_timedOut s2" "done_calls s2 = []"
    by (simp_all add: s2_def s1 start_def newSession_def exampleParams_def exampleHost_def
        callback_defs)
  have sb: "getScrollback \<lparr> baseY = 0, rows = 5, bufLines = replicate 5 [] \<rparr> SCROLLBACK_MAX_LINES
              = \<lparr> sb_text = [], sb_truncated = False \<rparr>"
    by code_simp
  have sn: "getSnapshot \<lparr> baseY = 0, rows = 5, bufLines = replicate 5 [] \<rparr>
              SCREEN_SNAPSHOT_MAX_LINES = []"
    by code_simp
  have tt: "truncateTail [] ml mb = []" for ml mb
    by (cases ml; cases "the ml") (simp_all add: truncateTail_def)
  have "done_calls (step exampleHost s2 XtermParse) = [?R]"
    using buf q fl by (simp add: parseNext_def flushCallback_def finish_eq Let_def sb sn tt)
  then have res: "done_calls (run exampleHost [Abort, PtyExit 0, XtermParse]
             (start exampleHost exampleParams)) = [?R]"
    by (simp only: run_Cons run_Nil s1_def s2_def)
  then have mem: "?R \<in> set (done_calls (run exampleHost [Abort, PtyExit 0, XtermParse]
             (start exampleHost exampleParams)))"
    by simp
  have ab: "abortedBySignal ?R"
    by simp
  from abort_is_the_only_failure [OF mem] ab mem show ?thesis
    by blast
qed

section \<open>The order of the exit and the timer\<close>

text \<open>
  The flush callback reads \<open>timedOut\<close> when it runs, while \<open>exitCode\<close> and
  \<open>abortedBySignal\<close> were fixed when the exit was handled. The timer's callback tests
  \<open>finished\<close>, which is still unset between the two. So when the child exits by
  itself and the timer fires before the emulator has called the flush callback, the
  result has \<open>timedOut\<close> set and carries the exit code of the child.
\<close>

lemma three_events:
  assumes s2: "s2 = step exampleHost (step exampleHost (start exampleHost exampleParams) e1) e2"
    and buf: "o_buf s2 = \<lparr> baseY = 0, rows = 5, bufLines = replicate 5 [] \<rparr>"
    and q: "o_writes s2 = [Write [] (Some cb)]"
    and fl: "\<not> v_finished s2" "done_calls s2 = []"
  shows "done_calls (run exampleHost [e1, e2, XtermParse] (start exampleHost exampleParams)) =
           [\<lparr> exitCode = cl_exitCode cb, scrollback = [], screenSnapshot = [],
               timedOut = v_timedOut s2, dismissedByUser = v_dismissedByUser s2,
               scrollbackTruncated = False, abortedBySignal = cl_abortedBySignal cb \<rparr>]"
proof -
  have sb: "getScrollback \<lparr> baseY = 0, rows = 5, bufLines = replicate 5 [] \<rparr> SCROLLBACK_MAX_LINES
              = \<lparr> sb_text = [], sb_truncated = False \<rparr>"
    by code_simp
  have sn: "getSnapshot \<lparr> baseY = 0, rows = 5, bufLines = replicate 5 [] \<rparr>
              SCREEN_SNAPSHOT_MAX_LINES = []"
    by code_simp
  have tt: "truncateTail [] ml mb = []" for ml mb
    by (cases ml; cases "the ml") (simp_all add: truncateTail_def)
  have "done_calls (step exampleHost s2 XtermParse) =
           [\<lparr> exitCode = cl_exitCode cb, scrollback = [], screenSnapshot = [],
               timedOut = v_timedOut s2, dismissedByUser = v_dismissedByUser s2,
               scrollbackTruncated = False, abortedBySignal = cl_abortedBySignal cb \<rparr>]"
    using buf q fl by (simp add: parseNext_def flushCallback_def finish_eq Let_def sb sn tt)
  then show ?thesis
    by (simp only: run_Cons run_Nil s2)
qed

lemma exit_then_timer:
  "done_calls (run exampleHost [PtyExit code, TimerFires, XtermParse]
       (start exampleHost exampleParams)) =
     [\<lparr> exitCode = Some code, scrollback = [], screenSnapshot = [], timedOut = True,
         dismissedByUser = False, scrollbackTruncated = False, abortedBySignal = False \<rparr>]"
proof -
  define s2 where "s2 = step exampleHost
      (step exampleHost (start exampleHost exampleParams) (PtyExit code)) TimerFires"
  have "o_buf s2 = \<lparr> baseY = 0, rows = 5, bufLines = replicate 5 [] \<rparr>"
    and "o_writes s2 = [Write [] (Some \<lparr> cl_exitCode = Some code, cl_abortedBySignal = False \<rparr>)]"
    and "\<not> v_finished s2" and "done_calls s2 = []"
    and "v_timedOut s2" and "\<not> v_dismissedByUser s2"
    by (simp_all add: s2_def start_def newSession_def exampleParams_def exampleHost_def
        callback_defs)
  with three_events [OF s2_def] show ?thesis
    by simp
qed

end
